theory Spec2Isabelle
  imports Main "HOL-Library.Word" "HOL-Library.Signed_Division"
begin

section \<open>Errors and results (aos/common/tools/error.hpp, as used by the sources)\<close>

text \<open>
  The error codes the sources modelled here return. \<open>eInvalidSpec\<close> and \<open>eTimeout\<close> are the
  two further kinds the design document lists for the launcher.
\<close>

datatype ErrorEnum =
  eNone | eNoMemory | eOutOfRange | eNotFound | eInvalidArgument | eAlreadyExist
  | eInvalidSpec | eTimeout

definition IsNone :: "ErrorEnum \<Rightarrow> bool" where
  "IsNone e = (e = eNone)"

text \<open>\<open>RetWithError<T>\<close>: a value together with an error code.\<close>

record 'a RetWithError =
  mValue :: 'a
  mError :: ErrorEnum

text \<open>
  A memory access outside the buffer an array was created over is undefined behaviour in
  C++. The model makes it a value: every operation that touches memory returns
  \<open>Inl OutOfBounds\<close> at such an access, and \<open>Inr\<close> of its result otherwise.
\<close>

datatype fault = OutOfBounds

section \<open>Array (aos/common/tools/array.hpp)\<close>

text \<open>
  \<open>size_t\<close> is a 64-bit unsigned integer: \<open>+\<close> and \<open>-\<close> wrap around.
  An array is a view of a buffer: \<open>mItems\<close> points at the first cell, \<open>mSize\<close> cells
  are in use, \<open>mMaxSize\<close> is the capacity. The buffer is modelled by the list of its cells,
  and a \<open>T*\<close> into it by the index of the cell (\<open>None\<close> is \<open>nullptr\<close>).
\<close>

type_synonym size_t = "64 word"

record 'a Array =
  mItems :: "'a list"
  mSize :: size_t
  mMaxSize :: size_t

text \<open>\<open>Array()\<close>: no buffer, size and capacity 0.\<close>

definition Array_empty :: "'a Array" where
  "Array_empty = \<lparr>mItems = [], mSize = 0, mMaxSize = 0\<rparr>"

text \<open>\<open>Array(T* items, size_t size)\<close>: a full array over a C array of \<open>size\<close> cells.\<close>

definition Array_of :: "'a list \<Rightarrow> 'a Array" where
  "Array_of items = \<lparr>mItems = items, mSize = of_nat (length items), mMaxSize = of_nat (length items)\<rparr>"

text \<open>Reading and writing one cell of the buffer, by index.\<close>

definition load :: "'a Array \<Rightarrow> nat \<Rightarrow> fault + 'a" where
  "load a i = (if i < length (mItems a) then Inr (mItems a ! i) else Inl OutOfBounds)"

definition store :: "'a Array \<Rightarrow> nat \<Rightarrow> 'a \<Rightarrow> fault + 'a Array" where
  "store a i v =
     (if i < length (mItems a) then Inr (a\<lparr>mItems := (mItems a)[i := v]\<rparr>) else Inl OutOfBounds)"

definition Clear :: "'a Array \<Rightarrow> 'a Array" where
  "Clear a = a\<lparr>mSize := 0\<rparr>"

definition IsEmpty :: "'a Array \<Rightarrow> bool" where
  "IsEmpty a = (mSize a = 0)"

definition IsFull :: "'a Array \<Rightarrow> bool" where
  "IsFull a = (mSize a = mMaxSize a)"

definition Size :: "'a Array \<Rightarrow> size_t" where
  "Size a = mSize a"

definition MaxSize :: "'a Array \<Rightarrow> size_t" where
  "MaxSize a = mMaxSize a"

text \<open>\<open>end()\<close> is \<open>&mItems[mSize]\<close>: the index of the first cell not in use.\<close>

definition end_index :: "'a Array \<Rightarrow> nat" where
  "end_index a = unat (mSize a)"

text \<open>
  The elements of the array: the first \<open>mSize\<close> cells of its buffer. The array is well
  formed when its buffer has \<open>mMaxSize\<close> cells and at most that many are in use.
\<close>

definition elements :: "'a Array \<Rightarrow> 'a list" where
  "elements a = take (unat (mSize a)) (mItems a)"

definition well_formed :: "'a Array \<Rightarrow> bool" where
  "well_formed a = (length (mItems a) = unat (mMaxSize a) \<and> mSize a \<le> mMaxSize a)"

text \<open>
  \<open>Resize(size, value)\<close>. The loop runs \<open>it\<close> from \<open>end()\<close> to \<open>end() + size - mSize\<close>,
  and every iteration copies \<open>value\<close> to \<open>end()\<close>, which does not move while the loop
  runs (\<open>mSize\<close> is set after it). \<open>Resize_loop\<close> takes the positions \<open>it\<close> runs through.
\<close>

fun Resize_loop :: "nat list \<Rightarrow> 'a \<Rightarrow> 'a Array \<Rightarrow> fault + 'a Array" where
  "Resize_loop [] v a = Inr a"
| "Resize_loop (it # its) v a =
     (case store a (end_index a) v of
        Inl f \<Rightarrow> Inl f
      | Inr a' \<Rightarrow> Resize_loop its v a')"

definition Resize :: "size_t \<Rightarrow> 'a \<Rightarrow> 'a Array \<Rightarrow> fault + (ErrorEnum \<times> 'a Array)" where
  "Resize n v a =
     (if n > mMaxSize a then Inr (eNoMemory, a)
      else
        (case (if n > mSize a
               then Resize_loop [end_index a ..< end_index a + unat n - unat (mSize a)] v a
               else Inr a) of
           Inl f \<Rightarrow> Inl f
         | Inr a' \<Rightarrow> Inr (eNone, a'\<lparr>mSize := n\<rparr>)))"

text \<open>\<open>At(index)\<close>: the address of the cell, or \<open>nullptr\<close> with \<open>eOutOfRange\<close>.\<close>

definition At :: "'a Array \<Rightarrow> size_t \<Rightarrow> (nat option) RetWithError" where
  "At a index =
     (if index \<ge> mSize a then \<lparr>mValue = None, mError = eOutOfRange\<rparr>
      else \<lparr>mValue = Some (unat index), mError = eNone\<rparr>)"

text \<open>Dereferencing a pointer into the buffer.\<close>

definition deref :: "'a Array \<Rightarrow> nat option \<Rightarrow> fault + 'a" where
  "deref a p = (case p of None \<Rightarrow> Inl OutOfBounds | Some i \<Rightarrow> load a i)"

text \<open>\<open>PushBack(item)\<close>: \<open>memcpy\<close> of the item to \<open>end()\<close>, then \<open>mSize++\<close>.\<close>

definition PushBack :: "'a \<Rightarrow> 'a Array \<Rightarrow> fault + (ErrorEnum \<times> 'a Array)" where
  "PushBack item a =
     (if IsFull a then Inr (eNoMemory, a)
      else
        (case store a (end_index a) item of
           Inl f \<Rightarrow> Inl f
         | Inr a' \<Rightarrow> Inr (eNone, a'\<lparr>mSize := mSize a' + 1\<rparr>)))"

text \<open>
  \<open>PopBack()\<close>. The source's statement under \<open>if (IsEmpty())\<close> builds the
  \<open>eNotFound\<close> result as a temporary and drops it: it has no \<open>return\<close> and no effect,
  so empty and non-empty arrays take the same path. That path reads \<open>mItems[mSize - 1]\<close>,
  decrements \<open>mSize\<close> (on \<open>size_t\<close>, so 0 becomes \<open>2^64 - 1\<close>) and \<open>memset\<close>s the cell at
  the new \<open>end()\<close> to zero bytes. \<open>zeroed\<close> is the value of \<open>T\<close> whose bytes are all zero.
\<close>

definition PopBack :: "'a \<Rightarrow> 'a Array \<Rightarrow> fault + ('a RetWithError \<times> 'a Array)" where
  "PopBack zeroed a =
     (case load a (unat (mSize a - 1)) of
        Inl f \<Rightarrow> Inl f
      | Inr x \<Rightarrow>
          (let result = \<lparr>mValue = x, mError = eNone\<rparr>;
               a1 = a\<lparr>mSize := mSize a - 1\<rparr>
           in case store a1 (end_index a1) zeroed of
                Inl f \<Rightarrow> Inl f
              | Inr a2 \<Rightarrow> Inr (result, a2)))"

text \<open>
  \<open>Find(item)\<close>: the first cell among the elements that equals the item under \<open>T\<close>'s
  \<open>operator==\<close>, which is the parameter \<open>eq\<close>. \<open>Find_loop\<close> is the loop from \<open>it\<close> up to
  \<open>end()\<close>; \<open>n\<close> counts the cells left.
\<close>

fun Find_loop :: "('a \<Rightarrow> 'a \<Rightarrow> bool) \<Rightarrow> 'a Array \<Rightarrow> 'a \<Rightarrow> nat \<Rightarrow> nat \<Rightarrow> fault + (nat option) RetWithError" where
  "Find_loop eq a item it 0 = Inr \<lparr>mValue = None, mError = eNotFound\<rparr>"
| "Find_loop eq a item it (Suc n) =
     (case load a it of
        Inl f \<Rightarrow> Inl f
      | Inr x \<Rightarrow>
          if eq x item then Inr \<lparr>mValue = Some it, mError = eNone\<rparr>
          else Find_loop eq a item (Suc it) n)"

definition Find :: "('a \<Rightarrow> 'a \<Rightarrow> bool) \<Rightarrow> 'a Array \<Rightarrow> 'a \<Rightarrow> fault + (nat option) RetWithError" where
  "Find eq a item = Find_loop eq a item 0 (end_index a)"

section \<open>Time (aos/common/tools/time.hpp)\<close>

text \<open>
  \<open>Duration\<close> is \<open>int64_t\<close>, and so are both fields of \<open>timespec\<close> on the 64-bit targets
  modelled here. Signed overflow is undefined behaviour in C++; the model gives it the
  two's complement result the hardware computes. C++ division truncates towards zero and
  the remainder takes the sign of the dividend: \<open>sdiv\<close> and \<open>smod\<close> on the signed values.
\<close>

type_synonym int64_t = "64 word"
type_synonym Duration = int64_t

definition div64 :: "int64_t \<Rightarrow> int64_t \<Rightarrow> int64_t" where
  "div64 a b = word_of_int (sint a sdiv sint b)"

definition rem64 :: "int64_t \<Rightarrow> int64_t \<Rightarrow> int64_t" where
  "rem64 a b = word_of_int (sint a smod sint b)"

record timespec =
  tv_sec :: int64_t
  tv_nsec :: int64_t

record Time =
  mTime :: timespec

definition Nanoseconds :: Duration where
  "Nanoseconds = 1"

definition Microseconds :: Duration where
  "Microseconds = 1000 * Nanoseconds"

definition Milliseconds :: Duration where
  "Milliseconds = 1000 * Microseconds"

definition Seconds :: Duration where
  "Seconds = 1000 * Milliseconds"

definition Unix :: "int64_t \<Rightarrow> int64_t \<Rightarrow> Time" where
  "Unix sec nsec = \<lparr>mTime = \<lparr>tv_sec = sec, tv_nsec = nsec\<rparr>\<rparr>"

definition Add :: "Time \<Rightarrow> Duration \<Rightarrow> Time" where
  "Add t duration =
     (let time = mTime t;
          nsec = tv_nsec time + duration;
          time = time\<lparr>tv_sec := tv_sec time + div64 nsec Seconds\<rparr>;
          time = time\<lparr>tv_nsec := rem64 nsec Seconds\<rparr>;
          time = (if tv_nsec time <s 0
                  then (let time = time\<lparr>tv_nsec := tv_nsec time + Seconds\<rparr>
                        in time\<lparr>tv_sec := tv_sec time - 1\<rparr>)
                  else time)
      in \<lparr>mTime = time\<rparr>)"

text \<open>The exact value of a time in nanoseconds, \<open>tv_sec * 10^9 + tv_nsec\<close>, as an integer.\<close>

definition total_nsec :: "Time \<Rightarrow> int" where
  "total_nsec t = sint (tv_sec (mTime t)) * 1000000000 + sint (tv_nsec (mTime t))"

section \<open>Identity and status model (aos/sm/launcher.hpp and the types it uses)\<close>

text \<open>
  The value types of the launcher's interface. Their declarations are not among the
  sources modelled here; the fields are the ones those sources initialise and read
  (\<open>mInstanceIdent\<close>, \<open>mVersionInfo\<close>, \<open>mServiceID\<close>, \<open>mProviderID\<close>, \<open>mImagePath\<close>) and, for
  the rest, the ones the design document lists. \<open>InstanceIdent\<close> is compared field by field,
  which is equality of the record.
\<close>

record InstanceIdent =
  serviceID :: string
  subjectID :: string
  instanceIndex :: "64 word"

record InstanceInfo =
  mInstanceIdent :: InstanceIdent
  uid :: "32 word"
  gid :: "32 word"
  storagePath :: string
  statePath :: string

text \<open>
  \<open>InstanceStatus\<close>: identity, version of the bound service, run state and error, in the
  order the launcher test initialises them.
\<close>

datatype InstanceRunState = eActive | eFailed

record InstanceStatus =
  statusIdent :: InstanceIdent
  serviceVersionID :: "64 word"
  runState :: InstanceRunState
  statusError :: ErrorEnum

text \<open>
  Modelled from the spec: \<open>InstanceStatus::operator==\<close>, which is declared with the type and
  is missing with it. The design document defines it: status equality for
  comparison purposes is an identity match only; error and state are not part of the key.
\<close>

definition InstanceStatus_eq :: "InstanceStatus \<Rightarrow> InstanceStatus \<Rightarrow> bool" where
  "InstanceStatus_eq a b = (statusIdent a = statusIdent b)"

section \<open>MockStorage: the instance registry (launcher test)\<close>

text \<open>
  \<open>std::find_if\<close> over a vector, as the position of the first element that satisfies the
  predicate; the length of the list is \<open>end()\<close>.
\<close>

fun find_if :: "('a \<Rightarrow> bool) \<Rightarrow> 'a list \<Rightarrow> nat" where
  "find_if p [] = 0"
| "find_if p (x # xs) = (if p x then 0 else Suc (find_if p xs))"

text \<open>\<open>std::vector::erase(it)\<close>.\<close>

definition erase :: "nat \<Rightarrow> 'a list \<Rightarrow> 'a list" where
  "erase it xs = take it xs @ drop (Suc it) xs"

text \<open>
  The registry holds a vector of records. Every operation takes the mutex for its whole
  body, so each is one atomic step on the state.
\<close>

record MockStorage =
  mInstances :: "InstanceInfo list"

definition MockStorage_init :: MockStorage where
  "MockStorage_init = \<lparr>mInstances = []\<rparr>"

definition AddInstance :: "InstanceInfo \<Rightarrow> MockStorage \<Rightarrow> ErrorEnum \<times> MockStorage" where
  "AddInstance instance s =
     (if find_if (\<lambda>info. mInstanceIdent instance = mInstanceIdent info) (mInstances s)
           \<noteq> length (mInstances s)
      then (eAlreadyExist, s)
      else (eNone, s\<lparr>mInstances := mInstances s @ [instance]\<rparr>))"

definition UpdateInstance :: "InstanceInfo \<Rightarrow> MockStorage \<Rightarrow> ErrorEnum \<times> MockStorage" where
  "UpdateInstance instance s =
     (let it = find_if (\<lambda>info. mInstanceIdent instance = mInstanceIdent info) (mInstances s)
      in if it = length (mInstances s) then (eNotFound, s)
         else (eNone, s\<lparr>mInstances := (mInstances s)[it := instance]\<rparr>))"

definition RemoveInstance :: "InstanceIdent \<Rightarrow> MockStorage \<Rightarrow> ErrorEnum \<times> MockStorage" where
  "RemoveInstance instanceIdent s =
     (let it = find_if (\<lambda>instance. mInstanceIdent instance = instanceIdent) (mInstances s)
      in if it = length (mInstances s) then (eNotFound, s)
         else (eNone, s\<lparr>mInstances := erase it (mInstances s)\<rparr>))"

text \<open>
  \<open>GetAllInstances(instances)\<close>: pushes every record to the caller's array and stops at
  the first \<open>PushBack\<close> that fails.
\<close>

fun GetAllInstances_loop :: "InstanceInfo list \<Rightarrow> InstanceInfo Array \<Rightarrow> fault + (ErrorEnum \<times> InstanceInfo Array)" where
  "GetAllInstances_loop [] instances = Inr (eNone, instances)"
| "GetAllInstances_loop (instance # rest) instances =
     (case PushBack instance instances of
        Inl f \<Rightarrow> Inl f
      | Inr (err, instances') \<Rightarrow>
          if \<not> IsNone err then Inr (err, instances')
          else GetAllInstances_loop rest instances')"

definition GetAllInstances :: "MockStorage \<Rightarrow> InstanceInfo Array \<Rightarrow> fault + (ErrorEnum \<times> InstanceInfo Array)" where
  "GetAllInstances s instances = GetAllInstances_loop (mInstances s) instances"

text \<open>
  The states the registry can reach from the empty one by its three mutating operations,
  whatever their arguments and outcomes.
\<close>

inductive reachable :: "MockStorage \<Rightarrow> bool" where
  init: "reachable MockStorage_init"
| add: "reachable s \<Longrightarrow> reachable (snd (AddInstance instance s))"
| update: "reachable s \<Longrightarrow> reachable (snd (UpdateInstance instance s))"
| remove: "reachable s \<Longrightarrow> reachable (snd (RemoveInstance instanceIdent s))"

text \<open>Whether the registry holds a record with the given identity.\<close>

definition present :: "InstanceIdent \<Rightarrow> MockStorage \<Rightarrow> bool" where
  "present ident s = (ident \<in> set (map mInstanceIdent (mInstances s)))"

section \<open>Collaborator mocks (launcher test)\<close>

text \<open>
  The test passes \<open>Array\<close> views of full vectors to the launcher and the mocks iterate them
  from \<open>begin()\<close> to \<open>end()\<close>; the model passes the list of their elements.
\<close>

record VersionInfo =
  versionID :: "64 word"
  versionString :: string
  description :: string

record ServiceInfo =
  mVersionInfo :: VersionInfo
  mServiceID :: string
  mProviderID :: string
  sizeBytes :: "64 word"
  sourceURL :: string
  sha256 :: "8 word list"
  sha512 :: "8 word list"
  serviceGID :: "32 word"

record ServiceData =
  mVersionInfo_data :: VersionInfo
  mServiceID_data :: string
  mProviderID_data :: string
  mImagePath :: string

text \<open>\<open>LayerInfo\<close> is passed through to the installer and never inspected.\<close>

typedecl LayerInfo

record ImageParts =
  imageSpecPath :: string
  runtimeSpecPath :: string
  imageRootPath :: string

text \<open>\<open>FS::JoinPath\<close>: the two parts with a separator between them.\<close>

definition JoinPath :: "string \<Rightarrow> string \<Rightarrow> string" where
  "JoinPath a b = a @ ''/'' @ b"

text \<open>\<open>ServiceData()\<close>: every field value-initialised.\<close>

definition ServiceData_default :: ServiceData where
  "ServiceData_default =
     \<lparr>mVersionInfo_data = \<lparr>versionID = 0, versionString = [], description = []\<rparr>,
      mServiceID_data = [], mProviderID_data = [], mImagePath = []\<rparr>"

record MockServiceManager =
  mServicesData :: "ServiceData list"

text \<open>\<open>InstallServices\<close> replaces the installed set by the given batch and never fails.\<close>

definition InstallServices :: "ServiceInfo list \<Rightarrow> MockServiceManager \<Rightarrow> ErrorEnum \<times> MockServiceManager" where
  "InstallServices services sm =
     (eNone,
      sm\<lparr>mServicesData :=
            map (\<lambda>service. \<lparr>mVersionInfo_data = mVersionInfo service,
                            mServiceID_data = mServiceID service,
                            mProviderID_data = mProviderID service,
                            mImagePath = JoinPath ''/aos/storages'' (mServiceID service)\<rparr>)
                services\<rparr>)"

definition GetService :: "string \<Rightarrow> MockServiceManager \<Rightarrow> ServiceData RetWithError" where
  "GetService serviceID' sm =
     (let it = find_if (\<lambda>service. mServiceID_data service = serviceID') (mServicesData sm)
      in if it = length (mServicesData sm)
         then \<lparr>mValue = ServiceData_default, mError = eNotFound\<rparr>
         else \<lparr>mValue = mServicesData sm ! it, mError = eNone\<rparr>)"

definition GetImageParts :: "ServiceData \<Rightarrow> ImageParts RetWithError" where
  "GetImageParts service =
     \<lparr>mValue = \<lparr>imageSpecPath = JoinPath (mImagePath service) ''image.json'',
                runtimeSpecPath = JoinPath (mImagePath service) ''service.json'',
                imageRootPath = mImagePath service\<rparr>,
      mError = eNone\<rparr>"

text \<open>
  The runner. The instance identifier and the runtime directory are strings the launcher
  builds from the identity, and from the identity and the service version; the model
  passes those values themselves. \<open>RunStatus {}\<close> is value-initialised: the first run state
  and no error.
\<close>

record RuntimeDir =
  dirIdent :: InstanceIdent
  dirVersion :: "64 word"

record RunStatus =
  mInstanceID :: "InstanceIdent option"
  mState :: InstanceRunState
  runError :: ErrorEnum

definition RunStatus_default :: RunStatus where
  "RunStatus_default = \<lparr>mInstanceID = None, mState = eActive, runError = eNone\<rparr>"

definition StartInstance :: "InstanceIdent \<Rightarrow> RuntimeDir \<Rightarrow> RunStatus" where
  "StartInstance instanceID runtimeDir = RunStatus_default"

definition StopInstance :: "InstanceIdent \<Rightarrow> ErrorEnum" where
  "StopInstance instanceID = eNone"

text \<open>The OCI codec. Loading an image spec adds the command \<open>unikernel\<close>; nothing else happens.\<close>

record ImageConfig =
  mCmd :: "string list"

record ImageSpec =
  mConfig :: ImageConfig

record RuntimeSpec =
  specArgs :: "string list"
  specUID :: "32 word"
  specGID :: "32 word"
  specMounts :: "string list"

definition LoadImageSpec :: "string \<Rightarrow> ImageSpec \<Rightarrow> ErrorEnum \<times> ImageSpec" where
  "LoadImageSpec path imageSpec =
     (eNone, imageSpec\<lparr>mConfig := (mConfig imageSpec)\<lparr>mCmd := mCmd (mConfig imageSpec) @ [''unikernel'']\<rparr>\<rparr>)"

definition SaveImageSpec :: "string \<Rightarrow> ImageSpec \<Rightarrow> ErrorEnum" where
  "SaveImageSpec path imageSpec = eNone"

definition LoadRuntimeSpec :: "string \<Rightarrow> RuntimeSpec \<Rightarrow> ErrorEnum \<times> RuntimeSpec" where
  "LoadRuntimeSpec path runtimeSpec = (eNone, runtimeSpec)"

definition SaveRuntimeSpec :: "RuntimeDir \<Rightarrow> RuntimeSpec \<Rightarrow> ErrorEnum" where
  "SaveRuntimeSpec path runtimeSpec = eNone"

text \<open>
  The status receiver fulfils its promise with the batch; the model records every batch
  delivered, the latest last. Both deliveries do the same.
\<close>

record MockStatusReceiver =
  mDelivered :: "InstanceStatus list list"

definition InstancesRunStatus :: "InstanceStatus list \<Rightarrow> MockStatusReceiver \<Rightarrow> ErrorEnum \<times> MockStatusReceiver" where
  "InstancesRunStatus status r = (eNone, r\<lparr>mDelivered := mDelivered r @ [status]\<rparr>)"

definition InstancesUpdateStatus :: "InstanceStatus list \<Rightarrow> MockStatusReceiver \<Rightarrow> ErrorEnum \<times> MockStatusReceiver" where
  "InstancesUpdateStatus status r = (eNone, r\<lparr>mDelivered := mDelivered r @ [status]\<rparr>)"

section \<open>Launcher (aos/sm/launcher.hpp), from the design document\<close>

text \<open>
  The launcher's class is not among the sources modelled here: only its test is. The
  definitions of this section follow the design document's description of the
  reconciliation round, over the mocks above. The per-instance operations, which the
  launcher dispatches concurrently, are run one after the other, in the order of the
  lists; the mocks return at once, so no operation times out. A batch lists the statuses
  in the order of the starts; the properties proved of batches do not depend on it.
\<close>

text \<open>
  Modelled from the spec: the launcher's state, which is missing with its class. Besides
  its collaborators it holds, for every instance it has started, the version of the
  service the instance was started with (the "bound service version" of a current
  instance).
\<close>

record Launcher =
  mServiceManager :: MockServiceManager
  mStorage :: MockStorage
  mStatusReceiver :: MockStatusReceiver
  mBound :: "InstanceIdent \<Rightarrow> 64 word option"

text \<open>
  Modelled from the spec: the Instance Registry Adapter's \<open>List\<close>, missing with the launcher:
  the full set of records of the registry.
\<close>

definition List_instances :: "MockStorage \<Rightarrow> InstanceInfo list" where
  "List_instances s = mInstances s"

text \<open>
  Modelled from the spec: the Runtime Spec Preparer's \<open>Prepare(serviceData, instanceInfo)\<close>,
  missing with the launcher. It loads the image parts and the image spec, fails with
  \<open>eInvalidSpec\<close> when the image spec has no command, loads the runtime spec, merges the
  instance's parameters into it and saves it in the runtime directory of the instance and
  service version. Errors of the collaborators are returned unchanged.
\<close>

definition Prepare :: "ServiceData \<Rightarrow> InstanceInfo \<Rightarrow> RuntimeDir RetWithError" where
  "Prepare serviceData instanceInfo =
     (let runtimeDir = \<lparr>dirIdent = mInstanceIdent instanceInfo,
                         dirVersion = versionID (mVersionInfo_data serviceData)\<rparr>;
          parts = GetImageParts serviceData
      in if \<not> IsNone (mError parts) then \<lparr>mValue = runtimeDir, mError = mError parts\<rparr>
         else
           (case LoadImageSpec (imageSpecPath (mValue parts)) \<lparr>mConfig = \<lparr>mCmd = []\<rparr>\<rparr> of
              (err1, imageSpec) \<Rightarrow>
                if \<not> IsNone err1 then \<lparr>mValue = runtimeDir, mError = err1\<rparr>
                else if mCmd (mConfig imageSpec) = [] then \<lparr>mValue = runtimeDir, mError = eInvalidSpec\<rparr>
                else
                  (case LoadRuntimeSpec (runtimeSpecPath (mValue parts))
                          \<lparr>specArgs = [], specUID = 0, specGID = 0, specMounts = []\<rparr> of
                     (err2, runtimeSpec) \<Rightarrow>
                       if \<not> IsNone err2 then \<lparr>mValue = runtimeDir, mError = err2\<rparr>
                       else
                         \<lparr>mValue = runtimeDir,
                          mError = SaveRuntimeSpec runtimeDir
                                     (runtimeSpec\<lparr>specArgs := mCmd (mConfig imageSpec),
                                                  specUID := uid instanceInfo,
                                                  specGID := gid instanceInfo,
                                                  specMounts := [storagePath instanceInfo,
                                                                 statePath instanceInfo]\<rparr>)\<rparr>)))"

text \<open>
  Modelled from the spec: the status the launcher reports for an instance that failed,
  missing with the launcher: its identity, the version of its service, \<open>Failed\<close> and the
  originating error.
\<close>

definition Failed_status :: "InstanceInfo \<Rightarrow> 64 word \<Rightarrow> ErrorEnum \<Rightarrow> InstanceStatus" where
  "Failed_status instance version err =
     \<lparr>statusIdent = mInstanceIdent instance, serviceVersionID = version,
      runState = eFailed, statusError = err\<rparr>"

text \<open>
  Modelled from the spec: the status the launcher reports for an instance that started,
  missing with the launcher: its identity, the version of its service, \<open>Active\<close> and no error.
\<close>

definition Active_status :: "InstanceInfo \<Rightarrow> 64 word \<Rightarrow> InstanceStatus" where
  "Active_status instance version =
     \<lparr>statusIdent = mInstanceIdent instance, serviceVersionID = version,
      runState = eActive, statusError = eNone\<rparr>"

text \<open>
  Modelled from the spec: "upsert the InstanceInfo", missing with the launcher: update the
  record of that identity when the registry has one, add the record otherwise.
\<close>

definition Upsert :: "InstanceInfo \<Rightarrow> MockStorage \<Rightarrow> ErrorEnum \<times> MockStorage" where
  "Upsert instance s =
     (if present (mInstanceIdent instance) s then UpdateInstance instance s
      else AddInstance instance s)"

text \<open>
  Modelled from the spec: step 4 of the round for one entry of ToStart, missing with the
  launcher. Resolve the service, prepare the runtime directory, start the instance; on
  success upsert the record and report \<open>Active\<close>; on a failure of resolution, preparation,
  start or registry mutation report \<open>Failed\<close> with that error and leave the registry alone.
\<close>

definition start_instance :: "InstanceInfo \<Rightarrow> Launcher \<Rightarrow> InstanceStatus \<times> Launcher" where
  "start_instance instance l =
     (let service = GetService (serviceID (mInstanceIdent instance)) (mServiceManager l);
          version = versionID (mVersionInfo_data (mValue service))
      in if \<not> IsNone (mError service) then (Failed_status instance version (mError service), l)
         else
           (let runtimeDir = Prepare (mValue service) instance
            in if \<not> IsNone (mError runtimeDir)
               then (Failed_status instance version (mError runtimeDir), l)
               else
                 (let status = StartInstance (mInstanceIdent instance) (mValue runtimeDir)
                  in if \<not> IsNone (runError status) \<or> mState status = eFailed
                     then (Failed_status instance version (runError status), l)
                     else
                       (case Upsert instance (mStorage l) of
                          (err, storage) \<Rightarrow>
                            if \<not> IsNone err then (Failed_status instance version err, l)
                            else (Active_status instance version,
                                  l\<lparr>mStorage := storage,
                                    mBound := (mBound l)(mInstanceIdent instance \<mapsto> version)\<rparr>)))))"

text \<open>
  Modelled from the spec: step 4 for all of ToStart, missing with the launcher, collecting
  the statuses.
\<close>

fun start_instances :: "InstanceInfo list \<Rightarrow> Launcher \<Rightarrow> InstanceStatus list \<times> Launcher" where
  "start_instances [] l = ([], l)"
| "start_instances (instance # rest) l =
     (case start_instance instance l of
        (status, l') \<Rightarrow>
          (case start_instances rest l' of
             (statuses, l'') \<Rightarrow> (status # statuses, l'')))"

text \<open>
  Modelled from the spec: step 3 of the round for one entry of ToStop, missing with the
  launcher. Stop the instance, then remove its record whatever the outcome of the stop.
  A stop emits no status: the second round of the launcher test stops three instances and
  expects an empty batch.
\<close>

definition stop_instance :: "InstanceInfo \<Rightarrow> Launcher \<Rightarrow> Launcher" where
  "stop_instance instance l =
     (let err = StopInstance (mInstanceIdent instance)
      in l\<lparr>mStorage := snd (RemoveInstance (mInstanceIdent instance) (mStorage l)),
           mBound := (mBound l)(mInstanceIdent instance := None)\<rparr>)"

text \<open>Modelled from the spec: step 3 for all of ToStop, missing with the launcher.\<close>

fun stop_instances :: "InstanceInfo list \<Rightarrow> Launcher \<Rightarrow> Launcher" where
  "stop_instances [] l = l"
| "stop_instances (instance # rest) l = stop_instances rest (stop_instance instance l)"

text \<open>
  Modelled from the spec: the version a desired instance is bound to, which is the
  installed version of its service, if the service is installed.
\<close>

definition desired_version :: "Launcher \<Rightarrow> InstanceInfo \<Rightarrow> 64 word option" where
  "desired_version l instance =
     (let service = GetService (serviceID (mInstanceIdent instance)) (mServiceManager l)
      in if IsNone (mError service) then Some (versionID (mVersionInfo_data (mValue service)))
         else None)"

text \<open>
  Modelled from the spec: the set ToStart of step 2, missing with the launcher: desired and
  not current, or in both with a different bound service version. The desired instances
  outside it are unchanged: they are left untouched and get no status in the round.
\<close>

definition ToStart :: "Launcher \<Rightarrow> InstanceInfo list \<Rightarrow> InstanceInfo list \<Rightarrow> InstanceInfo list" where
  "ToStart l current desired =
     filter (\<lambda>d. mInstanceIdent d \<notin> set (map mInstanceIdent current)
                 \<or> mBound l (mInstanceIdent d) \<noteq> desired_version l d) desired"

text \<open>
  Modelled from the spec: the set ToStop of step 2, missing with the launcher: current and
  not desired.
\<close>

definition ToStop :: "InstanceInfo list \<Rightarrow> InstanceInfo list \<Rightarrow> InstanceInfo list" where
  "ToStop current desired =
     filter (\<lambda>c. mInstanceIdent c \<notin> set (map mInstanceIdent desired)) current"

text \<open>
  Modelled from the spec: the Status Aggregator's delivery of the round's batch, missing
  with the launcher: one delivery to the status sink, whose error is the round's.
\<close>

definition deliver :: "InstanceStatus list \<Rightarrow> Launcher \<Rightarrow> ErrorEnum \<times> Launcher" where
  "deliver statuses l =
     (case InstancesRunStatus statuses (mStatusReceiver l) of
        (err, receiver) \<Rightarrow> (err, l\<lparr>mStatusReceiver := receiver\<rparr>))"

text \<open>
  Modelled from the spec: \<open>RunInstances(services, layers, instances)\<close>, missing with the
  launcher. A desired set with a duplicate identity is rejected with \<open>eInvalidArgument\<close>
  before anything happens. Step 1 installs the batch and aborts the round if that fails;
  step 2 loads the current set from the registry and computes ToStop and ToStart; steps 3
  and 4 stop and start, an instance of ToStart that is current being stopped first (the
  mock runner's stop returns \<open>eNone\<close> and changes nothing); step 6 delivers the statuses
  observed in the round as one batch.
\<close>

definition RunInstances :: "ServiceInfo list \<Rightarrow> LayerInfo list \<Rightarrow> InstanceInfo list \<Rightarrow> Launcher \<Rightarrow> ErrorEnum \<times> Launcher" where
  "RunInstances services layers instances l =
     (if \<not> distinct (map mInstanceIdent instances) then (eInvalidArgument, l)
      else
        (case InstallServices services (mServiceManager l) of
           (err, serviceManager) \<Rightarrow>
             if \<not> IsNone err then (err, l)
             else
               (let l1 = l\<lparr>mServiceManager := serviceManager\<rparr>;
                    current = List_instances (mStorage l1);
                    toStart = ToStart l1 current instances;
                    l2 = stop_instances (ToStop current instances) l1;
                    restarted = map (\<lambda>d. StopInstance (mInstanceIdent d))
                                  (filter (\<lambda>d. mInstanceIdent d \<in> set (map mInstanceIdent current)) toStart)
                in case start_instances toStart l2 of
                     (statuses, l3) \<Rightarrow> deliver statuses l3)))"

text \<open>
  Modelled from the spec: \<open>RunLastInstances()\<close>, missing with the launcher. The desired set
  is the registry's; every instance of it is resolved against the installed services and
  started. With an empty registry the round completes at once with an empty batch.
\<close>

definition RunLastInstances :: "Launcher \<Rightarrow> ErrorEnum \<times> Launcher" where
  "RunLastInstances l =
     (let instances = List_instances (mStorage l)
      in if instances = [] then deliver [] l
         else
           (case start_instances instances l of
              (statuses, l') \<Rightarrow> deliver statuses l'))"

text \<open>
  Modelled from the spec: the launcher after \<open>Init\<close> with the fresh mocks of the test, missing
  with the launcher: nothing installed, nothing stored, nothing delivered, nothing started.
\<close>

definition Launcher_init :: Launcher where
  "Launcher_init =
     \<lparr>mServiceManager = \<lparr>mServicesData = []\<rparr>,
      mStorage = MockStorage_init,
      mStatusReceiver = \<lparr>mDelivered = []\<rparr>,
      mBound = Map.empty\<rparr>"

text \<open>
  The data of the launcher test: instance \<open>n\<close> of \<open>service1\<close> for \<open>subject1\<close>, \<open>service1\<close> at
  version \<open>v\<close>, and the status the test expects for instance \<open>n\<close> at version \<open>v\<close>.
\<close>

definition test_instance :: "64 word \<Rightarrow> InstanceInfo" where
  "test_instance n =
     \<lparr>mInstanceIdent = \<lparr>serviceID = ''service1'', subjectID = ''subject1'', instanceIndex = n\<rparr>,
      uid = 0, gid = 0, storagePath = [], statePath = []\<rparr>"

definition test_service :: "64 word \<Rightarrow> ServiceInfo" where
  "test_service v =
     \<lparr>mVersionInfo = \<lparr>versionID = v, versionString = ''1.0'', description = []\<rparr>,
      mServiceID = ''service1'', mProviderID = ''provider1'', sizeBytes = 0, sourceURL = [],
      sha256 = [], sha512 = [], serviceGID = 0\<rparr>"

definition test_status :: "64 word \<Rightarrow> 64 word \<Rightarrow> InstanceStatus" where
  "test_status n v =
     \<lparr>statusIdent = \<lparr>serviceID = ''service1'', subjectID = ''subject1'', instanceIndex = n\<rparr>,
      serviceVersionID = v, runState = eActive, statusError = eNone\<rparr>"

section \<open>CompareInstanceStatuses (launcher test)\<close>

text \<open>
  One of the two range-based loops of \<open>CompareInstanceStatuses\<close>: for every element of
  \<open>status1\<close>, from \<open>it\<close> up to \<open>end()\<close> (\<open>n\<close> counts the cells left), look it up in
  \<open>status2\<close> with \<open>Find\<close> and stop with \<open>false\<close> at the first that is not found.
\<close>

fun found_all :: "('a \<Rightarrow> 'a \<Rightarrow> bool) \<Rightarrow> 'a Array \<Rightarrow> 'a Array \<Rightarrow> nat \<Rightarrow> nat \<Rightarrow> fault + bool" where
  "found_all eq status1 status2 it 0 = Inr True"
| "found_all eq status1 status2 it (Suc n) =
     (case load status1 it of
        Inl f \<Rightarrow> Inl f
      | Inr instance \<Rightarrow>
          (case Find eq status2 instance of
             Inl f \<Rightarrow> Inl f
           | Inr r \<Rightarrow>
               if \<not> IsNone (mError r) then Inr False
               else found_all eq status1 status2 (Suc it) n))"

definition CompareInstanceStatuses :: "InstanceStatus Array \<Rightarrow> InstanceStatus Array \<Rightarrow> fault + bool" where
  "CompareInstanceStatuses status1 status2 =
     (if Size status1 \<noteq> Size status2 then Inr False
      else
        (case found_all InstanceStatus_eq status1 status2 0 (end_index status1) of
           Inl f \<Rightarrow> Inl f
         | Inr ok1 \<Rightarrow>
             if \<not> ok1 then Inr False
             else
               (case found_all InstanceStatus_eq status2 status1 0 (end_index status2) of
                  Inl f \<Rightarrow> Inl f
                | Inr ok2 \<Rightarrow> if \<not> ok2 then Inr False else Inr True)))"

section \<open>Properties of Array\<close>

lemma PushBack_full: "mSize a = mMaxSize a \<Longrightarrow> PushBack item a = Inr (eNoMemory, a)"
  by (simp add: PushBack_def IsFull_def)

lemma unat_succ_lt: "(s::size_t) < m \<Longrightarrow> unat (s + 1) = Suc (unat s)"
  by unat_arith

lemma PushBack_room:
  assumes wf: "well_formed a" and lt: "mSize a < mMaxSize a"
  shows "PushBack item a = Inr (eNone, a\<lparr>mItems := (mItems a)[unat (mSize a) := item], mSize := mSize a + 1\<rparr>)"
proof -
  from lt have "unat (mSize a) < unat (mMaxSize a)" by (simp add: word_less_nat_alt)
  with wf have "unat (mSize a) < length (mItems a)" by (simp add: well_formed_def)
  with lt show ?thesis
    by (simp add: PushBack_def IsFull_def store_def end_index_def)
qed

lemma elements_push:
  assumes wf: "well_formed a" and lt: "mSize a < mMaxSize a"
  shows "elements (a\<lparr>mItems := (mItems a)[unat (mSize a) := item], mSize := mSize a + 1\<rparr>) = elements a @ [item]"
proof -
  from lt have l: "unat (mSize a) < unat (mMaxSize a)" by (simp add: word_less_nat_alt)
  with wf have b: "unat (mSize a) < length (mItems a)" by (simp add: well_formed_def)
  have s: "unat (mSize a + 1) = Suc (unat (mSize a))" using lt by (rule unat_succ_lt)
  show ?thesis using b
    by (simp add: elements_def s take_Suc_conv_app_nth)
qed

lemma wf_push:
  assumes wf: "well_formed a" and lt: "mSize a < mMaxSize a"
  shows "well_formed (a\<lparr>mItems := (mItems a)[unat (mSize a) := item], mSize := mSize a + 1\<rparr>)"
proof -
  from lt have "mSize a + 1 \<le> mMaxSize a" by (simp add: inc_le)
  with wf show ?thesis by (simp add: well_formed_def)
qed

text \<open>
  Claim C5. \<open>PushBack\<close> on an array whose size equals its capacity returns \<open>eNoMemory\<close>
  and leaves the array as it was. On a well-formed array whose size is below its capacity
  it returns \<open>eNone\<close>, the size grows by exactly one (without wrapping), the capacity is
  unchanged and the elements are the former elements followed by the item. In every case
  the result of \<open>PushBack\<close> on a well-formed array is well formed again: its size never
  exceeds the declared capacity.
\<close>

theorem PushBack_never_grows_past_capacity:
  "(mSize a = mMaxSize a \<longrightarrow> PushBack item a = Inr (eNoMemory, a))
   \<and> (well_formed a \<and> mSize a < mMaxSize a \<longrightarrow>
        (\<exists>a'. PushBack item a = Inr (eNone, a')
           \<and> mSize a' = mSize a + 1 \<and> unat (mSize a') = unat (mSize a) + 1
           \<and> mMaxSize a' = mMaxSize a
           \<and> elements a' = elements a @ [item]))
   \<and> (well_formed a \<longrightarrow>
        (\<exists>e a'. PushBack item a = Inr (e, a') \<and> well_formed a' \<and> mMaxSize a' = mMaxSize a
           \<and> mSize a' \<le> mMaxSize a))"
proof (intro conjI impI)
  assume "mSize a = mMaxSize a"
  then show "PushBack item a = Inr (eNoMemory, a)" by (rule PushBack_full)
next
  assume h: "well_formed a \<and> mSize a < mMaxSize a"
  then have wf: "well_formed a" and lt: "mSize a < mMaxSize a" by simp_all
  let ?a' = "a\<lparr>mItems := (mItems a)[unat (mSize a) := item], mSize := mSize a + 1\<rparr>"
  have "PushBack item a = Inr (eNone, ?a')" using wf lt by (rule PushBack_room)
  moreover have "elements ?a' = elements a @ [item]" using wf lt by (rule elements_push)
  moreover have "unat (mSize ?a') = unat (mSize a) + 1" using unat_succ_lt [OF lt] by simp
  ultimately show "\<exists>a'. PushBack item a = Inr (eNone, a')
           \<and> mSize a' = mSize a + 1 \<and> unat (mSize a') = unat (mSize a) + 1
           \<and> mMaxSize a' = mMaxSize a
           \<and> elements a' = elements a @ [item]"
    by simp
next
  assume wf: "well_formed a"
  show "\<exists>e a'. PushBack item a = Inr (e, a') \<and> well_formed a' \<and> mMaxSize a' = mMaxSize a
           \<and> mSize a' \<le> mMaxSize a"
  proof (cases "mSize a = mMaxSize a")
    case True
    then show ?thesis using wf PushBack_full [OF True, of item] by simp
  next
    case False
    with wf have lt: "mSize a < mMaxSize a" by (auto simp: well_formed_def)
    let ?a' = "a\<lparr>mItems := (mItems a)[unat (mSize a) := item], mSize := mSize a + 1\<rparr>"
    have "PushBack item a = Inr (eNone, ?a')" using wf lt by (rule PushBack_room)
    moreover have "well_formed ?a'" using wf lt by (rule wf_push)
    moreover have "mSize ?a' \<le> mMaxSize a" using inc_le [OF lt] by simp
    ultimately show ?thesis by simp
  qed
qed

theorem PushBack_witness:
  "PushBack (7::int) \<lparr>mItems = [1, 2], mSize = 2, mMaxSize = 2\<rparr>
      = Inr (eNoMemory, \<lparr>mItems = [1, 2], mSize = 2, mMaxSize = 2\<rparr>)
   \<and> (\<exists>a'. PushBack (7::int) \<lparr>mItems = [1, 0], mSize = 1, mMaxSize = 2\<rparr> = Inr (eNone, a')
          \<and> mSize a' = 2 \<and> elements a' = [1, 7])"
proof -
  have wf: "well_formed \<lparr>mItems = [1, 0::int], mSize = 1, mMaxSize = 2\<rparr>"
    by (simp add: well_formed_def)
  have el: "elements \<lparr>mItems = [1, 0::int], mSize = 1, mMaxSize = 2\<rparr> = [1]"
    by (simp add: elements_def)
  show ?thesis
    using PushBack_never_grows_past_capacity [of "\<lparr>mItems = [1, 2::int], mSize = 2, mMaxSize = 2\<rparr>" 7]
      PushBack_never_grows_past_capacity [of "\<lparr>mItems = [1, 0::int], mSize = 1, mMaxSize = 2\<rparr>" 7]
      wf el
    by auto
qed

lemma At_in_range:
  assumes wf: "well_formed a" and lt: "index < mSize a"
  shows "deref a (mValue (At a index)) = Inr (elements a ! unat index)"
proof -
  from lt have i: "unat index < unat (mSize a)" by (simp add: word_less_nat_alt)
  from wf have "unat (mSize a) \<le> length (mItems a)" by (simp add: well_formed_def word_le_nat_alt)
  with i have "unat index < length (mItems a)" by simp
  with i lt show ?thesis
    by (simp add: At_def deref_def load_def elements_def)
qed

text \<open>
  Claim C6. \<open>At(index)\<close> returns \<open>nullptr\<close> with \<open>eOutOfRange\<close> when the index is at or
  beyond the current size. Otherwise it returns, with \<open>eNone\<close>, the address of the cell at
  that index, and on a well-formed array dereferencing that address yields the element at
  the index. Every address \<open>At\<close> hands out lies below the current size.
\<close>

theorem At_bounds_checked:
  "(index \<ge> mSize a \<longrightarrow> At a index = \<lparr>mValue = None, mError = eOutOfRange\<rparr>)
   \<and> (index < mSize a \<longrightarrow>
         At a index = \<lparr>mValue = Some (unat index), mError = eNone\<rparr>
         \<and> (well_formed a \<longrightarrow> deref a (mValue (At a index)) = Inr (elements a ! unat index)))
   \<and> (\<forall>p. mValue (At a index) = Some p \<longrightarrow> p < unat (mSize a))"
proof (intro conjI impI allI)
  assume "mSize a \<le> index" then show "At a index = \<lparr>mValue = None, mError = eOutOfRange\<rparr>"
    by (simp add: At_def)
next
  assume "index < mSize a" then show "At a index = \<lparr>mValue = Some (unat index), mError = eNone\<rparr>"
    by (simp add: At_def)
next
  assume "index < mSize a" and "well_formed a"
  then show "deref a (mValue (At a index)) = Inr (elements a ! unat index)"
    by (simp add: At_in_range)
next
  fix p assume "mValue (At a index) = Some p"
  then show "p < unat (mSize a)"
    by (auto simp: At_def word_le_nat_alt split: if_splits)
qed

theorem At_witness:
  "At \<lparr>mItems = [5, 6, 0::int], mSize = 2, mMaxSize = 3\<rparr> 2 = \<lparr>mValue = None, mError = eOutOfRange\<rparr>
   \<and> At \<lparr>mItems = [5, 6, 0::int], mSize = 2, mMaxSize = 3\<rparr> 1 = \<lparr>mValue = Some 1, mError = eNone\<rparr>
   \<and> deref \<lparr>mItems = [5, 6, 0::int], mSize = 2, mMaxSize = 3\<rparr>
         (mValue (At \<lparr>mItems = [5, 6, 0::int], mSize = 2, mMaxSize = 3\<rparr> 1)) = Inr 6"
proof -
  have wf: "well_formed \<lparr>mItems = [5, 6, 0::int], mSize = 2, mMaxSize = 3\<rparr>"
    by (simp add: well_formed_def)
  have el: "elements \<lparr>mItems = [5, 6, 0::int], mSize = 2, mMaxSize = 3\<rparr> = [5, 6]"
    by (simp add: elements_def)
  show ?thesis
    using At_bounds_checked [of "\<lparr>mItems = [5, 6, 0::int], mSize = 2, mMaxSize = 3\<rparr>" 2]
      At_bounds_checked [of "\<lparr>mItems = [5, 6, 0::int], mSize = 2, mMaxSize = 3\<rparr>" 1]
      wf el
    by auto
qed

lemma PopBack_empty_faults:
  assumes wf: "well_formed a" and e: "IsEmpty a"
  shows "PopBack zeroed a = Inl OutOfBounds"
proof -
  have "unat (mMaxSize a) < 2 ^ 64" using unsigned_less [of "mMaxSize a"] by simp
  with wf have "length (mItems a) < 2 ^ 64" by (simp add: well_formed_def)
  moreover have "unat (0 - 1 :: size_t) = 2 ^ 64 - 1"
    by (simp add: unsigned_minus_1_eq_mask mask_eq_exp_minus_1)
  ultimately show ?thesis using e by (simp add: PopBack_def IsEmpty_def load_def)
qed

lemma PopBack_never_NotFound:
  "PopBack zeroed a = Inr (r, a') \<Longrightarrow> mError r = eNone"
  by (auto simp: PopBack_def Let_def split: sum.splits)

text \<open>
  Claim C9 (what the code does instead). \<open>PopBack\<close> on the empty array over a buffer of four
  zeroed cells does not return \<open>eNotFound\<close>: it reads \<open>mItems[mSize - 1]\<close> with
  \<open>mSize - 1 = 2^64 - 1\<close>, an access outside the buffer.
\<close>

theorem PopBack_empty_reads_outside:
  "PopBack (0::int) \<lparr>mItems = [0, 0, 0, 0], mSize = 0, mMaxSize = 4\<rparr> = Inl OutOfBounds"
  by (simp add: PopBack_def load_def unsigned_minus_1_eq_mask mask_eq_exp_minus_1)

lemma Resize_loop_same_cell:
  "its \<noteq> [] \<Longrightarrow> end_index a < length (mItems a) \<Longrightarrow>
     Resize_loop its v a = Inr (a\<lparr>mItems := (mItems a)[end_index a := v]\<rparr>)"
proof (induction its arbitrary: a)
  case Nil
  then show ?case by simp
next
  case (Cons it its)
  show ?case
  proof (cases "its = []")
    case True
    with Cons.prems show ?thesis by (simp add: store_def)
  next
    case False
    let ?a' = "a\<lparr>mItems := (mItems a)[end_index a := v]\<rparr>"
    have e: "end_index ?a' = end_index a" by (simp add: end_index_def)
    have "Resize_loop its v ?a' = Inr (?a'\<lparr>mItems := (mItems ?a')[end_index ?a' := v]\<rparr>)"
      using False Cons.prems by (intro Cons.IH) (simp_all add: end_index_def)
    then show ?thesis using Cons.prems by (simp add: store_def e)
  qed
qed

lemma Resize_grow:
  assumes wf: "well_formed a" and lt: "mSize a < n" and le: "n \<le> mMaxSize a"
  shows "Resize n v a = Inr (eNone, a\<lparr>mItems := (mItems a)[unat (mSize a) := v], mSize := n\<rparr>)"
proof -
  from lt have l: "unat (mSize a) < unat n" by (simp add: word_less_nat_alt)
  from le have "unat n \<le> unat (mMaxSize a)" by (simp add: word_le_nat_alt)
  with l wf have b: "end_index a < length (mItems a)" by (simp add: well_formed_def end_index_def)
  from l have ne: "[end_index a ..< end_index a + unat n - unat (mSize a)] \<noteq> []"
    by (simp add: end_index_def)
  have "\<not> n > mMaxSize a" using le by simp
  then show ?thesis using lt Resize_loop_same_cell [OF ne b, of v]
    by (simp add: Resize_def end_index_def)
qed

text \<open>
  Claim C10 (what the code does instead). Growing the empty array over a buffer of four
  zeroed cells to size 3 with fill value 5 returns \<open>eNone\<close> and sets the size to 3, but
  only the cell at the former end receives the fill value: the elements are \<open>[5, 0, 0]\<close>,
  not \<open>[5, 5, 5]\<close>.
\<close>

theorem Resize_fills_one_cell_only:
  "Resize 3 (5::int) \<lparr>mItems = [0, 0, 0, 0], mSize = 0, mMaxSize = 4\<rparr>
     = Inr (eNone, \<lparr>mItems = [5, 0, 0, 0], mSize = 3, mMaxSize = 4\<rparr>)
   \<and> elements \<lparr>mItems = [5, 0, 0, 0::int], mSize = 3, mMaxSize = 4\<rparr> = [5, 0, 0]"
  by (simp add: Resize_def end_index_def store_def upt_conv_Cons elements_def)

section \<open>Properties of Time\<close>

lemma Seconds_val: "Seconds = 1000000000"
  by (simp add: Seconds_def Milliseconds_def Microseconds_def Nanoseconds_def)

lemma sint_w64:
  "- (2 ^ 63) \<le> x \<Longrightarrow> x < 2 ^ 63 \<Longrightarrow> sint (word_of_int x :: 64 word) = x"
  by (simp add: signed_of_int signed_take_bit_int_eq_self)

lemma smod_bounds:
  fixes x :: int
  shows "- 1000000000 < x smod 1000000000 \<and> x smod 1000000000 < 1000000000"
proof -
  have m: "0 \<le> \<bar>x\<bar> mod 1000000000 \<and> \<bar>x\<bar> mod 1000000000 < 1000000000" by simp
  show ?thesis
  proof (cases "x < 0")
    case True
    then show ?thesis using m by (simp add: signed_modulo_int_def)
  next
    case False
    then show ?thesis using m by (cases "x = 0") (simp_all add: signed_modulo_int_def)
  qed
qed

lemma floor_from_trunc_nonneg:
  fixes x :: int
  assumes "0 \<le> x smod 1000000000"
  shows "x div 1000000000 = x sdiv 1000000000"
proof -
  have "x = 1000000000 * (x sdiv 1000000000) + x smod 1000000000"
    by (simp add: mult_sdiv_smod_eq)
  then show ?thesis using assms smod_bounds [of x]
    by (intro int_div_pos_eq) simp_all
qed

lemma floor_from_trunc_neg:
  fixes x :: int
  assumes "x smod 1000000000 < 0"
  shows "x div 1000000000 = x sdiv 1000000000 - 1"
proof -
  have e: "x = 1000000000 * (x sdiv 1000000000 - 1) + (x smod 1000000000 + 1000000000)"
    using mult_sdiv_smod_eq [of 1000000000 x] by (simp add: algebra_simps)
  have "0 \<le> x smod 1000000000 + 1000000000" using smod_bounds [of x] by simp
  moreover have "x smod 1000000000 + 1000000000 < 1000000000" using assms by simp
  ultimately show ?thesis using e by (intro int_div_pos_eq)
qed

lemma sint_add_fits:
  fixes a b :: "64 word"
  assumes "- (2 ^ 63) \<le> sint a + sint b" "sint a + sint b < 2 ^ 63"
  shows "sint (a + b) = sint a + sint b"
proof -
  have "a + b = word_of_int (sint a + sint b)" by simp
  then show ?thesis using assms sint_w64 by metis
qed

text \<open>
  Claim C8, amended. For a time whose nanosecond field is in \<open>[0, 10^9)\<close> and a duration
  \<open>d\<close> such that the sum \<open>tv_nsec + d\<close> and the resulting second count
  \<open>tv_sec + \<lfloor>(tv_nsec + d) / 10^9\<rfloor>\<close> are both representable as signed 64-bit integers,
  \<open>Add\<close> returns a time whose nanosecond field is in \<open>[0, 10^9)\<close> and whose exact value in
  nanoseconds is the original value plus \<open>d\<close>.
\<close>

theorem Add_exact_when_representable:
  fixes t :: Time and d :: Duration
  assumes n0: "0 \<le> sint (tv_nsec (mTime t))" and n1: "sint (tv_nsec (mTime t)) < 1000000000"
    and x0: "- (2 ^ 63) \<le> sint (tv_nsec (mTime t)) + sint d"
    and x1: "sint (tv_nsec (mTime t)) + sint d < 2 ^ 63"
    and s0: "- (2 ^ 63) \<le> sint (tv_sec (mTime t)) + (sint (tv_nsec (mTime t)) + sint d) div 1000000000"
    and s1: "sint (tv_sec (mTime t)) + (sint (tv_nsec (mTime t)) + sint d) div 1000000000 < 2 ^ 63"
  shows "0 \<le> sint (tv_nsec (mTime (Add t d)))
       \<and> sint (tv_nsec (mTime (Add t d))) < 1000000000
       \<and> total_nsec (Add t d) = total_nsec t + sint d"
proof -
  define S where "S = sint (tv_sec (mTime t))"
  define X where "X = sint (tv_nsec (mTime t)) + sint d"
  define q where "q = X sdiv 1000000000"
  define r where "r = X smod 1000000000"
  have X: "sint (tv_nsec (mTime t) + d) = X"
    unfolding X_def using x0 x1 by (rule sint_add_fits)
  have rb: "- 1000000000 < r" "r < 1000000000"
    using smod_bounds [of X] by (simp_all add: r_def)
  have qr: "X = 1000000000 * q + r"
    by (simp add: q_def r_def mult_sdiv_smod_eq)
  have sr: "sint (rem64 (tv_nsec (mTime t) + d) Seconds) = r"
    using rb by (simp add: rem64_def X Seconds_val r_def sint_w64)
  define sq :: "64 word" where "sq = word_of_int (S + q)"
  have secq: "tv_sec (mTime t) + div64 (tv_nsec (mTime t) + d) Seconds = sq"
    by (simp add: div64_def X Seconds_val q_def S_def sq_def)
  show ?thesis
  proof (cases "r < 0")
    case True
    then have fl: "X div 1000000000 = q - 1"
      unfolding r_def q_def by (rule floor_from_trunc_neg)
    define nw :: "64 word" where "nw = word_of_int (r + 1000000000)"
    define sw :: "64 word" where "sw = word_of_int (S + q - 1)"
    have ns: "rem64 (tv_nsec (mTime t) + d) Seconds + Seconds = nw"
      by (simp add: rem64_def X Seconds_val r_def nw_def)
    have nsv: "sint nw = r + 1000000000"
      unfolding nw_def using rb True by (intro sint_w64) simp_all
    have sc: "sq - 1 = sw" by (simp add: sq_def sw_def)
    have scv: "sint sw = S + q - 1"
      unfolding sw_def using s0 s1 fl by (intro sint_w64) (simp_all add: S_def X_def)
    have lt: "rem64 (tv_nsec (mTime t) + d) Seconds <s 0"
      using True sr by (simp add: word_sless_alt)
    have res: "mTime (Add t d) = \<lparr>tv_sec = sw, tv_nsec = nw\<rparr>"
      using lt by (simp add: Add_def Let_def secq ns sc)
    have tot: "total_nsec t + sint d = S * 1000000000 + X"
      by (simp add: total_nsec_def S_def X_def)
    have tres: "total_nsec (Add t d) = sint sw * 1000000000 + sint nw"
      by (simp add: total_nsec_def res)
    show ?thesis
      using rb True qr by (simp add: tres tot res nsv scv algebra_simps)
  next
    case False
    then have fl: "X div 1000000000 = q"
      unfolding r_def q_def by (intro floor_from_trunc_nonneg) simp
    have scv: "sint sq = S + q"
      unfolding sq_def using s0 s1 fl by (intro sint_w64) (simp_all add: S_def X_def)
    have lt: "\<not> rem64 (tv_nsec (mTime t) + d) Seconds <s 0"
      using False sr by (simp add: word_sless_alt)
    define rw :: "64 word" where "rw = rem64 (tv_nsec (mTime t) + d) Seconds"
    have srw: "sint rw = r" by (simp add: rw_def sr)
    have res: "mTime (Add t d) = \<lparr>tv_sec = sq, tv_nsec = rw\<rparr>"
      using lt by (simp add: Add_def Let_def secq rw_def)
    have tot: "total_nsec t + sint d = S * 1000000000 + X"
      by (simp add: total_nsec_def S_def X_def)
    have tres: "total_nsec (Add t d) = sint sq * 1000000000 + r"
      by (simp add: total_nsec_def res srw)
    show ?thesis
      using rb False qr by (simp add: tres tot res srw scv algebra_simps)
  qed
qed

theorem Add_exact_witness:
  "0 \<le> sint (tv_nsec (mTime (Unix 5 1)))
   \<and> sint (tv_nsec (mTime (Unix 5 1))) < 1000000000
   \<and> Add (Unix 5 1) (- 1000000002) = Unix 3 999999999
   \<and> total_nsec (Add (Unix 5 1) (- 1000000002)) = total_nsec (Unix 5 1) - 1000000002"
proof -
  have "total_nsec (Add (Unix 5 1) (- 1000000002)) = total_nsec (Unix 5 1) + sint (- 1000000002 :: Duration)"
    using Add_exact_when_representable [of "Unix 5 1" "- 1000000002"]
    by (simp add: Unix_def)
  moreover have "Add (Unix 5 1) (- 1000000002) = Unix 3 999999999"
    by (simp add: Add_def Unix_def Let_def rem64_def div64_def Seconds_val word_sless_alt
        signed_modulo_int_def signed_divide_int_def)
  ultimately show ?thesis by (simp add: Unix_def)
qed

text \<open>
  Claim C8 as stated fails when \<open>tv_nsec + d\<close> overflows: adding the largest duration to
  the time \<open>(0 s, 999999999 ns)\<close> yields a time some 584 years in the past.
\<close>

theorem Add_overflow_counterexample:
  "0 \<le> sint (tv_nsec (mTime (Unix 0 999999999)))
   \<and> sint (tv_nsec (mTime (Unix 0 999999999))) < 1000000000
   \<and> total_nsec (Add (Unix 0 999999999) 9223372036854775807)
        \<noteq> total_nsec (Unix 0 999999999) + sint (9223372036854775807 :: Duration)"
  by (simp add: Add_def Unix_def Let_def rem64_def div64_def Seconds_val word_sless_alt
      signed_modulo_int_def signed_divide_int_def total_nsec_def)

section \<open>Properties of the instance registry\<close>

lemma find_if_le: "find_if p xs \<le> length xs"
  by (induction xs) auto

lemma find_if_end: "find_if p xs = length xs \<longleftrightarrow> (\<forall>x \<in> set xs. \<not> p x)"
  using find_if_le [of p] by (induction xs) (auto simp: Suc_le_eq)

lemma find_if_hit: "find_if p xs \<noteq> length xs \<Longrightarrow> p (xs ! find_if p xs)"
  by (induction xs) (auto split: if_splits)

lemma find_if_key:
  "find_if (\<lambda>i. f i = k) xs \<noteq> length xs \<Longrightarrow> map f (xs[find_if (\<lambda>i. f i = k) xs := v]) = (map f xs)[find_if (\<lambda>i. f i = k) xs := f v]"
  by (simp add: map_update)

lemma erase_first_is_filter:
  "distinct (map f xs) \<Longrightarrow> erase (find_if (\<lambda>i. f i = k) xs) xs = filter (\<lambda>i. f i \<noteq> k) xs"
proof (induction xs)
  case Nil
  then show ?case by (simp add: erase_def)
next
  case (Cons x xs)
  show ?case
  proof (cases "f x = k")
    case True
    with Cons.prems have "\<forall>i \<in> set xs. f i \<noteq> k" by (auto simp: image_iff)
    then have "filter (\<lambda>i. f i \<noteq> k) xs = xs" by (simp add: filter_id_conv)
    with True show ?thesis by (simp add: erase_def)
  next
    case False
    with Cons show ?thesis by (simp add: erase_def)
  qed
qed

lemma present_find:
  "present ident s \<longleftrightarrow> find_if (\<lambda>i. mInstanceIdent i = ident) (mInstances s) \<noteq> length (mInstances s)"
  by (auto simp: present_def find_if_end)

lemma present_find':
  "present ident s \<longleftrightarrow> find_if (\<lambda>i. ident = mInstanceIdent i) (mInstances s) \<noteq> length (mInstances s)"
  by (auto simp: present_def find_if_end)

lemma AddInstance_present:
  "present (mInstanceIdent instance) s \<Longrightarrow> AddInstance instance s = (eAlreadyExist, s)"
  by (simp add: AddInstance_def present_find')

lemma AddInstance_absent:
  "\<not> present (mInstanceIdent instance) s \<Longrightarrow>
     AddInstance instance s = (eNone, s\<lparr>mInstances := mInstances s @ [instance]\<rparr>)"
  by (simp add: AddInstance_def present_find')

lemma UpdateInstance_absent:
  "\<not> present (mInstanceIdent instance) s \<Longrightarrow> UpdateInstance instance s = (eNotFound, s)"
  by (simp add: UpdateInstance_def present_find')

lemma RemoveInstance_absent:
  "\<not> present ident s \<Longrightarrow> RemoveInstance ident s = (eNotFound, s)"
  by (simp add: RemoveInstance_def present_find)

lemma RemoveInstance_present:
  "present ident s \<Longrightarrow> distinct (map mInstanceIdent (mInstances s)) \<Longrightarrow>
     RemoveInstance ident s
       = (eNone, s\<lparr>mInstances := filter (\<lambda>i. mInstanceIdent i \<noteq> ident) (mInstances s)\<rparr>)"
  by (simp add: RemoveInstance_def present_find erase_first_is_filter)

lemma UpdateInstance_idents:
  "map mInstanceIdent (mInstances (snd (UpdateInstance instance s))) = map mInstanceIdent (mInstances s)"
proof (cases "present (mInstanceIdent instance) s")
  case False
  then show ?thesis by (simp add: UpdateInstance_absent)
next
  case True
  let ?it = "find_if (\<lambda>info. mInstanceIdent instance = mInstanceIdent info) (mInstances s)"
  from True have ne: "?it \<noteq> length (mInstances s)" by (simp add: present_find')
  then have "mInstanceIdent instance = mInstanceIdent (mInstances s ! ?it)" by (rule find_if_hit)
  moreover have "?it < length (mInstances s)"
    using ne find_if_le [of "\<lambda>info. mInstanceIdent instance = mInstanceIdent info" "mInstances s"]
    by simp
  ultimately have "(map mInstanceIdent (mInstances s))[?it := mInstanceIdent instance] = map mInstanceIdent (mInstances s)"
    by (simp add: list_update_same_conv)
  then show ?thesis using ne by (simp add: UpdateInstance_def Let_def map_update)
qed

lemma reachable_distinct:
  "reachable s \<Longrightarrow> distinct (map mInstanceIdent (mInstances s))"
proof (induction rule: reachable.induct)
  case init
  show ?case by (simp add: MockStorage_init_def)
next
  case (add s i)
  then show ?case
    by (cases "present (mInstanceIdent i) s")
       (auto simp: AddInstance_present AddInstance_absent present_def)
next
  case (update s i)
  then show ?case by (simp add: UpdateInstance_idents)
next
  case (remove s ident)
  then show ?case
    by (cases "present ident s")
       (simp_all add: RemoveInstance_absent RemoveInstance_present distinct_map_filter)
qed

lemma only_one:
  assumes d: "distinct (map f xs)" and x: "x \<in> set xs" "f x = k"
  shows "set (filter (\<lambda>i. f i \<noteq> k) xs) = set xs - {x}"
proof -
  have "inj_on f (set xs)" using d by (simp add: distinct_map)
  then have u: "\<And>y. y \<in> set xs \<Longrightarrow> f y = k \<Longrightarrow> y = x"
    using x by (blast dest: inj_onD)
  show ?thesis
  proof (rule set_eqI)
    fix y
    show "y \<in> set (filter (\<lambda>i. f i \<noteq> k) xs) \<longleftrightarrow> y \<in> set xs - {x}"
      using u [of y] x by (simp only: set_filter mem_Collect_eq Diff_iff singleton_iff) blast
  qed
qed

text \<open>
  Claim C1. In every state the registry can reach, no two records share an
  \<open>InstanceIdent\<close>. There, \<open>AddInstance\<close> of a record whose identity is present returns
  \<open>eAlreadyExist\<close> and leaves the state as it was, and otherwise returns \<open>eNone\<close> and
  appends exactly the given record; \<open>UpdateInstance\<close> and \<open>RemoveInstance\<close> of an identity that
  is not present return \<open>eNotFound\<close> and leave the state as it was; \<open>RemoveInstance\<close> of an
  identity that is present returns \<open>eNone\<close> and removes exactly the one record with that
  identity. The three operations return no other error.
\<close>

theorem registry_one_record_per_ident:
  assumes r: "reachable s"
  shows "distinct (map mInstanceIdent (mInstances s))
    \<and> (present (mInstanceIdent instance) s \<longrightarrow> AddInstance instance s = (eAlreadyExist, s))
    \<and> (\<not> present (mInstanceIdent instance) s \<longrightarrow>
          AddInstance instance s = (eNone, s\<lparr>mInstances := mInstances s @ [instance]\<rparr>)
          \<and> UpdateInstance instance s = (eNotFound, s))
    \<and> (\<not> present ident s \<longrightarrow> RemoveInstance ident s = (eNotFound, s))
    \<and> (present ident s \<longrightarrow>
          (\<exists>s' removed. RemoveInstance ident s = (eNone, s')
             \<and> removed \<in> set (mInstances s) \<and> mInstanceIdent removed = ident
             \<and> set (mInstances s') = set (mInstances s) - {removed}
             \<and> mInstances s' = filter (\<lambda>i. mInstanceIdent i \<noteq> ident) (mInstances s)))
    \<and> (\<forall>e s'. AddInstance instance s = (e, s') \<longrightarrow> e = eNone \<or> e = eAlreadyExist)
    \<and> (\<forall>e s'. UpdateInstance instance s = (e, s') \<longrightarrow> e = eNone \<or> e = eNotFound)
    \<and> (\<forall>e s'. RemoveInstance ident s = (e, s') \<longrightarrow> e = eNone \<or> e = eNotFound)"
proof -
  have d: "distinct (map mInstanceIdent (mInstances s))" using r by (rule reachable_distinct)
  have rm: "\<exists>s' removed. RemoveInstance ident s = (eNone, s')
             \<and> removed \<in> set (mInstances s) \<and> mInstanceIdent removed = ident
             \<and> set (mInstances s') = set (mInstances s) - {removed}
             \<and> mInstances s' = filter (\<lambda>i. mInstanceIdent i \<noteq> ident) (mInstances s)"
    if p: "present ident s"
  proof -
    from p obtain x where x: "x \<in> set (mInstances s)" "mInstanceIdent x = ident"
      by (auto simp: present_def)
    let ?s' = "s\<lparr>mInstances := filter (\<lambda>i. mInstanceIdent i \<noteq> ident) (mInstances s)\<rparr>"
    have 1: "RemoveInstance ident s = (eNone, ?s')" using p d by (rule RemoveInstance_present)
    have 2: "set (mInstances ?s') = set (mInstances s) - {x}" using only_one [OF d x] by simp
    have 3: "mInstances ?s' = filter (\<lambda>i. mInstanceIdent i \<noteq> ident) (mInstances s)" by simp
    from 1 x 2 3 show ?thesis by blast
  qed
  have errs_add: "e = eNone \<or> e = eAlreadyExist" if "AddInstance instance s = (e, s')" for e s'
    using that by (auto simp: AddInstance_def split: if_splits)
  have errs_upd: "e = eNone \<or> e = eNotFound" if "UpdateInstance instance s = (e, s')" for e s'
    using that by (auto simp: UpdateInstance_def Let_def split: if_splits)
  have errs_rem: "e = eNone \<or> e = eNotFound" if "RemoveInstance ident s = (e, s')" for e s'
    using that by (auto simp: RemoveInstance_def Let_def split: if_splits)
  show ?thesis
  proof (intro conjI impI allI)
    show "distinct (map mInstanceIdent (mInstances s))" by (fact d)
  next
    assume "present (mInstanceIdent instance) s"
    then show "AddInstance instance s = (eAlreadyExist, s)" by (rule AddInstance_present)
  next
    assume "\<not> present (mInstanceIdent instance) s"
    then show "AddInstance instance s = (eNone, s\<lparr>mInstances := mInstances s @ [instance]\<rparr>)"
      by (rule AddInstance_absent)
  next
    assume "\<not> present (mInstanceIdent instance) s"
    then show "UpdateInstance instance s = (eNotFound, s)" by (rule UpdateInstance_absent)
  next
    assume "\<not> present ident s"
    then show "RemoveInstance ident s = (eNotFound, s)" by (rule RemoveInstance_absent)
  next
    assume "present ident s"
    then show "\<exists>s' removed. RemoveInstance ident s = (eNone, s')
             \<and> removed \<in> set (mInstances s) \<and> mInstanceIdent removed = ident
             \<and> set (mInstances s') = set (mInstances s) - {removed}
             \<and> mInstances s' = filter (\<lambda>i. mInstanceIdent i \<noteq> ident) (mInstances s)"
      by (rule rm)
  next
    fix e s' assume "AddInstance instance s = (e, s')"
    then show "e = eNone \<or> e = eAlreadyExist" by (rule errs_add)
  next
    fix e s' assume "UpdateInstance instance s = (e, s')"
    then show "e = eNone \<or> e = eNotFound" by (rule errs_upd)
  next
    fix e s' assume "RemoveInstance ident s = (e, s')"
    then show "e = eNone \<or> e = eNotFound" by (rule errs_rem)
  qed
qed

theorem registry_witness:
  "reachable (snd (AddInstance \<lparr>mInstanceIdent = \<lparr>serviceID = ''service1'', subjectID = ''subject1'', instanceIndex = 0\<rparr>,
                                uid = 0, gid = 0, storagePath = [], statePath = []\<rparr> MockStorage_init))
   \<and> AddInstance \<lparr>mInstanceIdent = \<lparr>serviceID = ''service1'', subjectID = ''subject1'', instanceIndex = 0\<rparr>,
                    uid = 5, gid = 5, storagePath = [], statePath = []\<rparr>
        (snd (AddInstance \<lparr>mInstanceIdent = \<lparr>serviceID = ''service1'', subjectID = ''subject1'', instanceIndex = 0\<rparr>,
                                uid = 0, gid = 0, storagePath = [], statePath = []\<rparr> MockStorage_init))
      = (eAlreadyExist,
         snd (AddInstance \<lparr>mInstanceIdent = \<lparr>serviceID = ''service1'', subjectID = ''subject1'', instanceIndex = 0\<rparr>,
                                uid = 0, gid = 0, storagePath = [], statePath = []\<rparr> MockStorage_init))
   \<and> RemoveInstance \<lparr>serviceID = ''service1'', subjectID = ''subject1'', instanceIndex = 1\<rparr>
        (snd (AddInstance \<lparr>mInstanceIdent = \<lparr>serviceID = ''service1'', subjectID = ''subject1'', instanceIndex = 0\<rparr>,
                                uid = 0, gid = 0, storagePath = [], statePath = []\<rparr> MockStorage_init))
      = (eNotFound,
         snd (AddInstance \<lparr>mInstanceIdent = \<lparr>serviceID = ''service1'', subjectID = ''subject1'', instanceIndex = 0\<rparr>,
                                uid = 0, gid = 0, storagePath = [], statePath = []\<rparr> MockStorage_init))"
proof -
  let ?i0 = "\<lparr>mInstanceIdent = \<lparr>serviceID = ''service1'', subjectID = ''subject1'', instanceIndex = 0\<rparr>,
              uid = 0, gid = 0, storagePath = [], statePath = []\<rparr>"
  let ?i1 = "\<lparr>mInstanceIdent = \<lparr>serviceID = ''service1'', subjectID = ''subject1'', instanceIndex = 0\<rparr>,
              uid = 5, gid = 5, storagePath = [], statePath = []\<rparr>"
  let ?k = "\<lparr>serviceID = ''service1'', subjectID = ''subject1'', instanceIndex = 1\<rparr>"
  let ?s = "snd (AddInstance ?i0 MockStorage_init)"
  have r: "reachable ?s" by (intro reachable.add reachable.init)
  have s: "mInstances ?s = [?i0]" by (simp add: AddInstance_def MockStorage_init_def)
  have p1: "present (mInstanceIdent ?i1) ?s" by (simp add: present_def s)
  have p2: "\<not> present ?k ?s" by (simp add: present_def s)
  show ?thesis
    using r registry_one_record_per_ident [OF r, of ?i1 ?k] p1 p2 by simp
qed

section \<open>Properties of CompareInstanceStatuses\<close>

lemma Find_loop_result:
  "it + n \<le> length (mItems a) \<Longrightarrow>
     \<exists>r. Find_loop eq a item it n = Inr r
        \<and> (IsNone (mError r) \<longleftrightarrow> (\<exists>x \<in> set (take n (drop it (mItems a))). eq x item))"
proof (induction n arbitrary: it)
  case 0
  show ?case by (simp add: IsNone_def)
next
  case (Suc n)
  then have lt: "it < length (mItems a)" and rest: "Suc it + n \<le> length (mItems a)" by simp_all
  have cells: "take (Suc n) (drop it (mItems a)) = mItems a ! it # take n (drop (Suc it) (mItems a))"
    using lt by (simp add: Cons_nth_drop_Suc [symmetric])
  show ?case
  proof (cases "eq (mItems a ! it) item")
    case True
    then show ?thesis using lt by (simp add: load_def cells IsNone_def)
  next
    case False
    then show ?thesis using lt Suc.IH [OF rest] by (simp add: load_def cells)
  qed
qed

lemma Find_result:
  assumes "unat (mSize a) \<le> length (mItems a)"
  shows "\<exists>r. Find eq a item = Inr r
        \<and> (IsNone (mError r) \<longleftrightarrow> (\<exists>x \<in> set (elements a). eq x item))"
  using Find_loop_result [of 0 "unat (mSize a)" a eq item] assms
  by (simp add: Find_def end_index_def elements_def)

lemma found_all_result:
  assumes b: "unat (mSize status2) \<le> length (mItems status2)"
  shows "it + n \<le> length (mItems status1) \<Longrightarrow>
     found_all eq status1 status2 it n
       = Inr (\<forall>x \<in> set (take n (drop it (mItems status1))). \<exists>y \<in> set (elements status2). eq y x)"
proof (induction n arbitrary: it)
  case 0
  show ?case by simp
next
  case (Suc n)
  then have lt: "it < length (mItems status1)" and rest: "Suc it + n \<le> length (mItems status1)"
    by simp_all
  have cells: "take (Suc n) (drop it (mItems status1))
      = mItems status1 ! it # take n (drop (Suc it) (mItems status1))"
    using lt by (simp add: Cons_nth_drop_Suc [symmetric])
  obtain r where r: "Find eq status2 (mItems status1 ! it) = Inr r"
    and f: "IsNone (mError r) \<longleftrightarrow> (\<exists>y \<in> set (elements status2). eq y (mItems status1 ! it))"
    using Find_result [OF b] by blast
  show ?case
    using lt r f Suc.IH [OF rest] by (simp add: load_def cells)
qed

lemma found_all_elements:
  assumes a: "unat (mSize status1) \<le> length (mItems status1)"
    and b: "unat (mSize status2) \<le> length (mItems status2)"
  shows "found_all eq status1 status2 0 (end_index status1)
       = Inr (\<forall>x \<in> set (elements status1). \<exists>y \<in> set (elements status2). eq y x)"
  using found_all_result [OF b, of 0 "unat (mSize status1)" status1 eq] a
  by (simp add: end_index_def elements_def)

lemma well_formed_in_buffer: "well_formed a \<Longrightarrow> unat (mSize a) \<le> length (mItems a)"
  by (simp add: well_formed_def word_le_nat_alt)

lemma length_elements: "well_formed a \<Longrightarrow> length (elements a) = unat (mSize a)"
  using well_formed_in_buffer [of a] by (simp add: elements_def)

lemma compare_shape:
  "(if \<not> l then Inr False
    else (case (Inr a :: fault + bool) of
            Inl f \<Rightarrow> Inl f
          | Inr ok1 \<Rightarrow>
              if \<not> ok1 then Inr False
              else (case (Inr b :: fault + bool) of
                      Inl f \<Rightarrow> Inl f
                    | Inr ok2 \<Rightarrow> if \<not> ok2 then Inr False else Inr True)))
   = (Inr (l \<and> a \<and> b) :: fault + bool)"
  by simp

lemma Compare_sets:
  assumes w1: "well_formed status1" and w2: "well_formed status2"
  shows "CompareInstanceStatuses status1 status2
       = Inr (length (elements status1) = length (elements status2)
            \<and> (\<forall>x \<in> set (elements status1). \<exists>y \<in> set (elements status2). statusIdent y = statusIdent x)
            \<and> (\<forall>y \<in> set (elements status2). \<exists>x \<in> set (elements status1). statusIdent x = statusIdent y))"
proof -
  have sz: "(Size status1 \<noteq> Size status2) = (\<not> length (elements status1) = length (elements status2))"
    using w1 w2 by (simp add: Size_def length_elements word_unat_eq_iff)
  have f1: "found_all InstanceStatus_eq status1 status2 0 (end_index status1)
       = Inr (\<forall>x \<in> set (elements status1). \<exists>y \<in> set (elements status2). InstanceStatus_eq y x)"
    using w1 w2 by (intro found_all_elements well_formed_in_buffer)
  have f2: "found_all InstanceStatus_eq status2 status1 0 (end_index status2)
       = Inr (\<forall>x \<in> set (elements status2). \<exists>y \<in> set (elements status1). InstanceStatus_eq y x)"
    using w1 w2 by (intro found_all_elements well_formed_in_buffer)
  show ?thesis
    unfolding CompareInstanceStatuses_def sz f1 f2 InstanceStatus_eq_def not_not
    by (rule compare_shape)
qed

lemma membership_image:
  "(\<forall>x \<in> A. \<exists>y \<in> B. f y = f x) = (f ` A \<subseteq> f ` B)"
proof
  assume h: "\<forall>x \<in> A. \<exists>y \<in> B. f y = f x"
  show "f ` A \<subseteq> f ` B"
  proof
    fix v assume "v \<in> f ` A"
    then obtain x where x: "x \<in> A" "v = f x" by blast
    with h obtain y where y: "y \<in> B" "f y = f x" by blast
    show "v \<in> f ` B" using x y by (intro image_eqI [where x = y]) simp_all
  qed
next
  assume e: "f ` A \<subseteq> f ` B"
  show "\<forall>x \<in> A. \<exists>y \<in> B. f y = f x"
  proof
    fix x assume "x \<in> A"
    then have "f x \<in> f ` B" using e by blast
    then obtain y where "y \<in> B" "f x = f y" by blast
    then show "\<exists>y \<in> B. f y = f x" by (intro bexI [where x = y]) simp_all
  qed
qed

lemma mutual_membership_image:
  "((\<forall>x \<in> A. \<exists>y \<in> B. f y = f x) \<and> (\<forall>y \<in> B. \<exists>x \<in> A. f x = f y)) = (f ` A = f ` B)"
  unfolding membership_image by blast

text \<open>
  Claim C7. On two well-formed status arrays, \<open>CompareInstanceStatuses\<close> returns true exactly
  when they have the same number of entries and every entry of each has an entry of the
  other with the same instance identity. Hence the result does not change when the first
  batch is replaced by one with the same number of entries and the same set of
  identities, whatever the order, run states and errors of its entries.
\<close>

theorem CompareInstanceStatuses_by_identity:
  assumes w1: "well_formed status1" and w2: "well_formed status2"
  shows "CompareInstanceStatuses status1 status2
       = Inr (length (elements status1) = length (elements status2)
            \<and> (\<forall>x \<in> set (elements status1). \<exists>y \<in> set (elements status2). statusIdent y = statusIdent x)
            \<and> (\<forall>y \<in> set (elements status2). \<exists>x \<in> set (elements status1). statusIdent x = statusIdent y))
    \<and> (\<forall>status1'. well_formed status1'
           \<and> length (elements status1') = length (elements status1)
           \<and> statusIdent ` set (elements status1') = statusIdent ` set (elements status1)
         \<longrightarrow> CompareInstanceStatuses status1' status2 = CompareInstanceStatuses status1 status2)"
proof (intro conjI allI impI)
  show "CompareInstanceStatuses status1 status2
       = Inr (length (elements status1) = length (elements status2)
            \<and> (\<forall>x \<in> set (elements status1). \<exists>y \<in> set (elements status2). statusIdent y = statusIdent x)
            \<and> (\<forall>y \<in> set (elements status2). \<exists>x \<in> set (elements status1). statusIdent x = statusIdent y))"
    using w1 w2 by (rule Compare_sets)
next
  fix status1' :: "InstanceStatus Array"
  assume h: "well_formed status1'
           \<and> length (elements status1') = length (elements status1)
           \<and> statusIdent ` set (elements status1') = statusIdent ` set (elements status1)"
  then have w1': "well_formed status1'" by simp
  show "CompareInstanceStatuses status1' status2 = CompareInstanceStatuses status1 status2"
    unfolding Compare_sets [OF w1 w2] Compare_sets [OF w1' w2] mutual_membership_image
    using h by simp
qed

theorem CompareInstanceStatuses_witness:
  "CompareInstanceStatuses
     (Array_of
       [\<lparr>statusIdent = \<lparr>serviceID = ''service1'', subjectID = ''subject1'', instanceIndex = 0\<rparr>,
         serviceVersionID = 1, runState = eActive, statusError = eNone\<rparr>,
        \<lparr>statusIdent = \<lparr>serviceID = ''service1'', subjectID = ''subject1'', instanceIndex = 1\<rparr>,
         serviceVersionID = 1, runState = eActive, statusError = eNone\<rparr>])
     (Array_of
       [\<lparr>statusIdent = \<lparr>serviceID = ''service1'', subjectID = ''subject1'', instanceIndex = 1\<rparr>,
         serviceVersionID = 1, runState = eFailed, statusError = eNotFound\<rparr>,
        \<lparr>statusIdent = \<lparr>serviceID = ''service1'', subjectID = ''subject1'', instanceIndex = 0\<rparr>,
         serviceVersionID = 1, runState = eActive, statusError = eNone\<rparr>])
   = Inr True"
proof -
  let ?a = "Array_of
       [\<lparr>statusIdent = \<lparr>serviceID = ''service1'', subjectID = ''subject1'', instanceIndex = 0\<rparr>,
         serviceVersionID = 1, runState = eActive, statusError = eNone\<rparr>,
        \<lparr>statusIdent = \<lparr>serviceID = ''service1'', subjectID = ''subject1'', instanceIndex = 1\<rparr>,
         serviceVersionID = 1, runState = eActive, statusError = eNone\<rparr>]"
  let ?b = "Array_of
       [\<lparr>statusIdent = \<lparr>serviceID = ''service1'', subjectID = ''subject1'', instanceIndex = 1\<rparr>,
         serviceVersionID = 1, runState = eFailed, statusError = eNotFound\<rparr>,
        \<lparr>statusIdent = \<lparr>serviceID = ''service1'', subjectID = ''subject1'', instanceIndex = 0\<rparr>,
         serviceVersionID = 1, runState = eActive, statusError = eNone\<rparr>]"
  have wa: "well_formed ?a" by (simp add: well_formed_def Array_of_def)
  have wb: "well_formed ?b" by (simp add: well_formed_def Array_of_def)
  have ea: "elements ?a = mItems ?a" by (simp add: elements_def Array_of_def)
  have eb: "elements ?b = mItems ?b" by (simp add: elements_def Array_of_def)
  show ?thesis
    using CompareInstanceStatuses_by_identity [OF wa wb]
    by (simp add: ea eb) (simp add: Array_of_def)
qed

section \<open>Properties of the launcher\<close>

lemma GetAllInstances_loop_room:
  "well_formed a \<Longrightarrow> unat (mSize a) + length xs \<le> unat (mMaxSize a) \<Longrightarrow>
     \<exists>a'. GetAllInstances_loop xs a = Inr (eNone, a')
        \<and> elements a' = elements a @ xs \<and> well_formed a' \<and> mMaxSize a' = mMaxSize a"
proof (induction xs arbitrary: a)
  case Nil
  then show ?case by simp
next
  case (Cons x xs)
  from Cons.prems have lt: "mSize a < mMaxSize a" by (simp add: word_less_nat_alt)
  let ?a' = "a\<lparr>mItems := (mItems a)[unat (mSize a) := x], mSize := mSize a + 1\<rparr>"
  have pb: "PushBack x a = Inr (eNone, ?a')" using Cons.prems(1) lt by (rule PushBack_room)
  have el: "elements ?a' = elements a @ [x]" using Cons.prems(1) lt by (rule elements_push)
  have wf: "well_formed ?a'" using Cons.prems(1) lt by (rule wf_push)
  have sz: "unat (mSize ?a') = Suc (unat (mSize a))" using unat_succ_lt [OF lt] by simp
  have "unat (mSize ?a') + length xs \<le> unat (mMaxSize ?a')" using Cons.prems(2) sz by simp
  from Cons.IH [OF wf this] obtain a'' where
    "GetAllInstances_loop xs ?a' = Inr (eNone, a'')" "elements a'' = elements ?a' @ xs"
    "well_formed a''" "mMaxSize a'' = mMaxSize ?a'" by blast
  then show ?case using pb el by (simp add: IsNone_def)
qed

lemma GetAllInstances_lists_registry:
  assumes "well_formed a" and "mSize a = 0" and "length (mInstances s) \<le> unat (mMaxSize a)"
  shows "\<exists>a'. GetAllInstances s a = Inr (eNone, a') \<and> elements a' = List_instances s"
proof -
  have "elements a = []" using assms(2) by (simp add: elements_def)
  then show ?thesis
    using GetAllInstances_loop_room [of a "mInstances s"] assms
    by (auto simp: GetAllInstances_def List_instances_def)
qed

lemma Prepare_ok: "mError (Prepare serviceData instanceInfo) = eNone"
  by (simp add: Prepare_def Let_def GetImageParts_def LoadImageSpec_def LoadRuntimeSpec_def
      SaveRuntimeSpec_def IsNone_def)

lemma UpdateInstance_present:
  "present (mInstanceIdent instance) s \<Longrightarrow> fst (UpdateInstance instance s) = eNone"
  by (simp add: UpdateInstance_def Let_def present_find')

lemma Upsert_ok: "fst (Upsert instance s) = eNone"
  by (simp add: Upsert_def UpdateInstance_present AddInstance_absent)

lemma start_instance_resolved:
  assumes "mError (GetService (serviceID (mInstanceIdent instance)) (mServiceManager l)) = eNone"
  shows "start_instance instance l =
      (Active_status instance
         (versionID (mVersionInfo_data (mValue (GetService (serviceID (mInstanceIdent instance)) (mServiceManager l))))),
       l\<lparr>mStorage := snd (Upsert instance (mStorage l)),
         mBound := (mBound l)(mInstanceIdent instance \<mapsto>
            versionID (mVersionInfo_data (mValue (GetService (serviceID (mInstanceIdent instance)) (mServiceManager l)))))\<rparr>)"
proof -
  obtain err storage where u: "Upsert instance (mStorage l) = (err, storage)" by (cases "Upsert instance (mStorage l)")
  then have "err = eNone" using Upsert_ok [of "instance" "mStorage l"] by simp
  with u assms show ?thesis
    by (simp add: start_instance_def Let_def IsNone_def Prepare_ok StartInstance_def RunStatus_default_def)
qed

lemma start_instance_unresolved:
  assumes "mError (GetService (serviceID (mInstanceIdent instance)) (mServiceManager l)) \<noteq> eNone"
  shows "start_instance instance l =
      (Failed_status instance
         (versionID (mVersionInfo_data (mValue (GetService (serviceID (mInstanceIdent instance)) (mServiceManager l)))))
         (mError (GetService (serviceID (mInstanceIdent instance)) (mServiceManager l))),
       l)"
  using assms by (simp add: start_instance_def Let_def IsNone_def)

lemma start_instance_keeps:
  "mServiceManager (snd (start_instance instance l)) = mServiceManager l"
  "mStatusReceiver (snd (start_instance instance l)) = mStatusReceiver l"
  by (cases "mError (GetService (serviceID (mInstanceIdent instance)) (mServiceManager l)) = eNone";
      simp add: start_instance_resolved start_instance_unresolved)+

lemma start_instances_keeps:
  "mServiceManager (snd (start_instances instances l)) = mServiceManager l
   \<and> mStatusReceiver (snd (start_instances instances l)) = mStatusReceiver l"
proof (induction instances arbitrary: l)
  case Nil
  show ?case by simp
next
  case (Cons i rest)
  obtain st l' where a: "start_instance i l = (st, l')" by (cases "start_instance i l")
  obtain sts l'' where b: "start_instances rest l' = (sts, l'')" by (cases "start_instances rest l'")
  have "mServiceManager l' = mServiceManager l" "mStatusReceiver l' = mStatusReceiver l"
    using start_instance_keeps [of i l] a by simp_all
  then show ?case using Cons.IH [of l'] a b by simp
qed

lemma desired_version_Some:
  "desired_version l d = Some v \<longleftrightarrow>
     mError (GetService (serviceID (mInstanceIdent d)) (mServiceManager l)) = eNone
     \<and> v = versionID (mVersionInfo_data (mValue (GetService (serviceID (mInstanceIdent d)) (mServiceManager l))))"
  by (auto simp: desired_version_def Let_def IsNone_def)

lemma desired_version_cong:
  "mServiceManager l' = mServiceManager l \<Longrightarrow> mInstanceIdent d' = mInstanceIdent d \<Longrightarrow>
     desired_version l' d' = desired_version l d"
  by (simp add: desired_version_def)

lemma start_instance_Some:
  assumes "desired_version l d = Some v"
  shows "start_instance d l =
      (Active_status d v,
       l\<lparr>mStorage := snd (Upsert d (mStorage l)), mBound := (mBound l)(mInstanceIdent d \<mapsto> v)\<rparr>)"
  using assms start_instance_resolved [of d l] by (simp add: desired_version_Some)

lemma start_instances_Cons:
  "start_instances (d # ds) l =
     (fst (start_instance d l) # fst (start_instances ds (snd (start_instance d l))),
      snd (start_instances ds (snd (start_instance d l))))"
  by (simp add: case_prod_beta)

text \<open>The registry after a run of starts in which every service resolves.\<close>

lemma start_instances_resolved:
  "\<forall>d \<in> set ds. desired_version l d \<noteq> None \<Longrightarrow>
     fst (start_instances ds l) = map (\<lambda>d. Active_status d (the (desired_version l d))) ds
     \<and> mStorage (snd (start_instances ds l)) = foldl (\<lambda>s d. snd (Upsert d s)) (mStorage l) ds"
proof (induction ds arbitrary: l)
  case Nil
  show ?case by simp
next
  case (Cons d ds)
  from Cons.prems obtain v where v: "desired_version l d = Some v" by auto
  let ?l' = "l\<lparr>mStorage := snd (Upsert d (mStorage l)), mBound := (mBound l)(mInstanceIdent d \<mapsto> v)\<rparr>"
  have st: "start_instance d l = (Active_status d v, ?l')" using v by (rule start_instance_Some)
  have same: "desired_version ?l' x = desired_version l x" for x
    by (rule desired_version_cong) simp_all
  have "\<forall>x \<in> set ds. desired_version ?l' x \<noteq> None" using Cons.prems same by simp
  from Cons.IH [OF this] show ?case
    unfolding start_instances_Cons st using v same by simp
qed

lemma Upsert_absent:
  "mInstanceIdent d \<notin> set (map mInstanceIdent (mInstances s)) \<Longrightarrow>
     snd (Upsert d s) = s\<lparr>mInstances := mInstances s @ [d]\<rparr>"
  by (simp add: Upsert_def present_def AddInstance_absent)

lemma foldl_Upsert_fresh:
  "distinct (map mInstanceIdent (mInstances s @ ds)) \<Longrightarrow>
     foldl (\<lambda>s d. snd (Upsert d s)) s ds = s\<lparr>mInstances := mInstances s @ ds\<rparr>"
proof (induction ds arbitrary: s)
  case Nil
  show ?case by simp
next
  case (Cons d ds)
  from Cons.prems have a: "mInstanceIdent d \<notin> set (map mInstanceIdent (mInstances s))" by auto
  have u: "snd (Upsert d s) = s\<lparr>mInstances := mInstances s @ [d]\<rparr>" using a by (rule Upsert_absent)
  have "distinct (map mInstanceIdent (mInstances (s\<lparr>mInstances := mInstances s @ [d]\<rparr>) @ ds))"
    using Cons.prems by simp
  from Cons.IH [OF this] show ?case by (simp add: u)
qed

lemma deliver_eq:
  "deliver statuses l =
     (eNone, l\<lparr>mStatusReceiver := (mStatusReceiver l)\<lparr>mDelivered := mDelivered (mStatusReceiver l) @ [statuses]\<rparr>\<rparr>)"
  by (simp add: deliver_def InstancesRunStatus_def)

text \<open>
  Claim C4. When the registry holds no record, \<open>RunLastInstances\<close> returns \<open>eNone\<close> and its
  only effect is the delivery of one batch, which is empty.
\<close>

theorem RunLastInstances_empty_registry:
  assumes "mInstances (mStorage l) = []"
  shows "RunLastInstances l =
     (eNone, l\<lparr>mStatusReceiver := (mStatusReceiver l)\<lparr>mDelivered := mDelivered (mStatusReceiver l) @ [[]]\<rparr>\<rparr>)"
  using assms by (simp add: RunLastInstances_def List_instances_def deliver_eq)

theorem RunLastInstances_empty_witness:
  "mInstances (mStorage Launcher_init) = []
   \<and> fst (RunLastInstances Launcher_init) = eNone
   \<and> mDelivered (mStatusReceiver (snd (RunLastInstances Launcher_init))) = [[]]"
proof -
  have e: "mInstances (mStorage Launcher_init) = []"
    by (simp add: Launcher_init_def MockStorage_init_def)
  show ?thesis
    using e RunLastInstances_empty_registry [OF e] by (simp add: Launcher_init_def)
qed

lemma desired_version_single:
  assumes "serviceID (mInstanceIdent d) = mServiceID service"
    and "InstallServices [service] sm = (err, sm1)"
  shows "desired_version (l\<lparr>mServiceManager := sm1\<rparr>) d = Some (versionID (mVersionInfo service))"
  using assms by (auto simp: desired_version_def GetService_def InstallServices_def Let_def IsNone_def)

text \<open>
  Claim C2. From a state whose registry is empty, \<open>RunInstances\<close> of one service and of
  instances with pairwise different identities, all of that service, returns \<open>eNone\<close> and
  delivers one batch, which has one entry per submitted instance, with its identity, run
  state \<open>Active\<close>, no error and the version of the installed service; afterwards the registry
  holds exactly the submitted records.
\<close>

theorem RunInstances_from_empty_registry:
  assumes empty: "mInstances (mStorage l) = []"
    and dist: "distinct (map mInstanceIdent instances)"
    and bound: "\<forall>d \<in> set instances. serviceID (mInstanceIdent d) = mServiceID service"
  shows "\<exists>l'. RunInstances [service] layers instances l = (eNone, l')
     \<and> mDelivered (mStatusReceiver l')
         = mDelivered (mStatusReceiver l)
           @ [map (\<lambda>d. \<lparr>statusIdent = mInstanceIdent d,
                          serviceVersionID = versionID (mVersionInfo service),
                          runState = eActive, statusError = eNone\<rparr>) instances]
     \<and> mInstances (mStorage l') = instances"
proof -
  obtain sm1 where inst: "InstallServices [service] (mServiceManager l) = (eNone, sm1)"
    by (simp add: InstallServices_def)
  let ?l1 = "l\<lparr>mServiceManager := sm1\<rparr>"
  have dv: "desired_version ?l1 d = Some (versionID (mVersionInfo service))" if "d \<in> set instances" for d
    using bound that inst by (intro desired_version_single [where sm = "mServiceManager l" and err = eNone]) simp_all
  have stop: "ToStop (List_instances (mStorage l)) instances = []"
    using empty by (simp add: ToStop_def List_instances_def)
  have start: "ToStart ?l1 (List_instances (mStorage l)) instances = instances"
    using empty by (simp add: ToStart_def List_instances_def)
  have all: "\<forall>d \<in> set instances. desired_version ?l1 d \<noteq> None" using dv by simp
  note r = start_instances_resolved [OF all]
  have sts: "fst (start_instances instances ?l1)
      = map (\<lambda>d. \<lparr>statusIdent = mInstanceIdent d,
                      serviceVersionID = versionID (mVersionInfo service),
                      runState = eActive, statusError = eNone\<rparr>) instances"
    using r dv by (simp add: Active_status_def)
  have "distinct (map mInstanceIdent (mInstances (mStorage ?l1) @ instances))"
    using empty dist by simp
  then have "foldl (\<lambda>s d. snd (Upsert d s)) (mStorage ?l1) instances
      = (mStorage ?l1)\<lparr>mInstances := mInstances (mStorage ?l1) @ instances\<rparr>"
    by (rule foldl_Upsert_fresh)
  then have reg: "mInstances (mStorage (snd (start_instances instances ?l1))) = instances"
    using r empty by simp
  have rcv: "mStatusReceiver (snd (start_instances instances ?l1)) = mStatusReceiver l"
    using start_instances_keeps [of instances ?l1] by simp
  have run: "RunInstances [service] layers instances l
      = deliver (fst (start_instances instances ?l1)) (snd (start_instances instances ?l1))"
    using dist
    by (simp add: RunInstances_def inst IsNone_def Let_def stop start case_prod_beta del: start_instances.simps)
  show ?thesis
    unfolding run deliver_eq using sts reg rcv by simp
qed

theorem RunInstances_from_empty_witness:
  "\<exists>l'. RunInstances [test_service 1] [] [test_instance 0, test_instance 1, test_instance 2] Launcher_init
          = (eNone, l')
     \<and> mDelivered (mStatusReceiver l') = [[test_status 0 1, test_status 1 1, test_status 2 1]]
     \<and> mInstances (mStorage l') = [test_instance 0, test_instance 1, test_instance 2]"
proof -
  have e: "mInstances (mStorage Launcher_init) = []"
    by (simp add: Launcher_init_def MockStorage_init_def)
  have d: "distinct (map mInstanceIdent [test_instance 0, test_instance 1, test_instance 2])"
    by (simp add: test_instance_def)
  have b: "\<forall>d \<in> set [test_instance 0, test_instance 1, test_instance 2].
             serviceID (mInstanceIdent d) = mServiceID (test_service 1)"
    by (simp add: test_instance_def test_service_def)
  have r: "mDelivered (mStatusReceiver Launcher_init) = []" by (simp add: Launcher_init_def)
  show ?thesis
    using RunInstances_from_empty_registry [OF e d b, of "[]"] r
    by (simp add: test_status_def test_instance_def test_service_def)
qed

end
